theory Spec2Isabelle
  imports Complex_Main "HOL-Library.Product_Lexorder" "HOL-Library.Multiset"
begin

section \<open>JavaScript numbers\<close>

text \<open>
  A JavaScript number is an IEEE 754 double: a finite value, one of the two infinities,
  or NaN. A finite value is carried as the real number it denotes; the two zeros are one
  value. Every arithmetic operation computes the exact result and rounds it to the
  nearest double, a tie going to the even significand, and an overflow to an infinity.
\<close>

datatype jsnum = NaN | NegInf | Fin real | PosInf

text \<open>The number of binary digits of a natural number.\<close>

fun bits :: "nat \<Rightarrow> nat" where
  "bits n = (if n = 0 then 0 else Suc (bits (n div 2)))"

declare bits.simps [simp del]

text \<open>
  The binary exponent of a real number that is not 0: the \<open>e\<close> with
  \<open>2^e \<le> |x| < 2^(e+1)\<close>.
\<close>

definition expo :: "real \<Rightarrow> int" where
  "expo x =
     (let a = \<bar>x\<bar> in
      if 1 \<le> a then int (bits (nat \<lfloor>a\<rfloor>)) - 1
      else if a = 0 then 0
      else
        let k = int (bits (nat \<lfloor>1 / a\<rfloor>)) - 1
        in if a * 2 powi k = 1 then - k else - k - 1)"

text \<open>The nearest integer, a tie going to the even one.\<close>

definition round_even :: "real \<Rightarrow> int" where
  "round_even r =
     (let f = \<lfloor>r\<rfloor>; d = r - of_int f in
      if d < 1 / 2 then f
      else if 1 / 2 < d then f + 1
      else if even f then f else f + 1)"

text \<open>
  The double nearest to a real number. The significand has 53 binary digits, so the
  spacing of the doubles around \<open>x\<close> is \<open>2^(e-52)\<close> for the exponent \<open>e\<close> of
  \<open>x\<close>; below \<open>2^-1022\<close> the spacing stays \<open>2^-1074\<close>; a result of \<open>2^1024\<close> or
  more is an infinity.
\<close>

definition round_to_double :: "real \<Rightarrow> jsnum" where
  "round_to_double x =
     (let e = max (expo x) (- 1022);
          q = 2 powi (e - 52);
          y = of_int (round_even (x / q)) * q
      in if 2 powi 1024 \<le> \<bar>y\<bar> then (if 0 < x then PosInf else NegInf) else Fin y)"

text \<open>A real number is a double when rounding leaves it as it is.\<close>

definition double :: "real \<Rightarrow> bool" where
  "double x \<longleftrightarrow> round_to_double x = Fin x"

text \<open>
  The values that are numbers of JavaScript other than NaN: the two infinities and the
  finite values that are doubles.
\<close>

definition number :: "jsnum \<Rightarrow> bool" where
  "number a = (case a of NaN \<Rightarrow> False | Fin x \<Rightarrow> double x | _ \<Rightarrow> True)"

fun jneg :: "jsnum \<Rightarrow> jsnum" where
  "jneg NaN = NaN"
| "jneg NegInf = PosInf"
| "jneg (Fin x) = Fin (- x)"
| "jneg PosInf = NegInf"

fun jadd :: "jsnum \<Rightarrow> jsnum \<Rightarrow> jsnum" where
  "jadd NaN _ = NaN"
| "jadd _ NaN = NaN"
| "jadd (Fin x) (Fin y) = round_to_double (x + y)"
| "jadd PosInf NegInf = NaN"
| "jadd NegInf PosInf = NaN"
| "jadd PosInf _ = PosInf"
| "jadd _ PosInf = PosInf"
| "jadd NegInf _ = NegInf"
| "jadd _ NegInf = NegInf"

definition jsub :: "jsnum \<Rightarrow> jsnum \<Rightarrow> jsnum" where
  "jsub a b = jadd a (jneg b)"

text \<open>The sign of a number: \<open>-1\<close>, \<open>0\<close> or \<open>1\<close>; NaN has none.\<close>

fun jsign :: "jsnum \<Rightarrow> int option" where
  "jsign NaN = None"
| "jsign NegInf = Some (- 1)"
| "jsign (Fin x) = Some (if x < 0 then - 1 else if x = 0 then 0 else 1)"
| "jsign PosInf = Some 1"

definition inf_of_sign :: "int \<Rightarrow> jsnum" where
  "inf_of_sign s = (if s = 0 then NaN else if s < 0 then NegInf else PosInf)"

fun jmul :: "jsnum \<Rightarrow> jsnum \<Rightarrow> jsnum" where
  "jmul (Fin x) (Fin y) = round_to_double (x * y)"
| "jmul a b =
     (case (jsign a, jsign b) of
        (Some s, Some t) \<Rightarrow> inf_of_sign (s * t)
      | _ \<Rightarrow> NaN)"

fun jdiv :: "jsnum \<Rightarrow> jsnum \<Rightarrow> jsnum" where
  "jdiv NaN _ = NaN"
| "jdiv _ NaN = NaN"
| "jdiv (Fin x) (Fin y) =
     (if y = 0 then (if x = 0 then NaN else if x < 0 then NegInf else PosInf)
      else round_to_double (x / y))"
| "jdiv (Fin x) _ = Fin 0"
| "jdiv a (Fin y) = (if y < 0 then jneg a else a)"
| "jdiv _ _ = NaN"

text \<open>The comparisons \<open><\<close>, \<open>>\<close> and \<open><=\<close>: false whenever an operand is NaN.\<close>

fun jlt :: "jsnum \<Rightarrow> jsnum \<Rightarrow> bool" where
  "jlt NaN _ = False"
| "jlt _ NaN = False"
| "jlt (Fin x) (Fin y) = (x < y)"
| "jlt NegInf NegInf = False"
| "jlt NegInf _ = True"
| "jlt _ NegInf = False"
| "jlt PosInf _ = False"
| "jlt _ PosInf = True"

definition jgt :: "jsnum \<Rightarrow> jsnum \<Rightarrow> bool" where
  "jgt a b = jlt b a"

definition jle :: "jsnum \<Rightarrow> jsnum \<Rightarrow> bool" where
  "jle a b = (a \<noteq> NaN \<and> b \<noteq> NaN \<and> \<not> jlt b a)"

definition jge :: "jsnum \<Rightarrow> jsnum \<Rightarrow> bool" where
  "jge a b = jle b a"

text \<open>\<open>Math.round\<close>: the nearest integer, a tie going up.\<close>

fun Math_round :: "jsnum \<Rightarrow> jsnum" where
  "Math_round (Fin x) = Fin (of_int \<lfloor>x + 1 / 2\<rfloor>)"
| "Math_round a = a"

text \<open>\<open>Math.min\<close> of two numbers: NaN if either is.\<close>

definition Math_min :: "jsnum \<Rightarrow> jsnum \<Rightarrow> jsnum" where
  "Math_min a b = (if a = NaN \<or> b = NaN then NaN else if jlt b a then b else a)"

text \<open>The number that a numeral of a JSON text or of a string denotes: the nearest double.\<close>

definition JSON_number :: "real \<Rightarrow> jsnum" where
  "JSON_number x = round_to_double x"

section \<open>Text and the numeric literals of ECMAScript\<close>

text \<open>
  Strings are ASCII. White space is the ASCII part of what \<open>trim\<close> and the numeric
  parsers skip: tab, line feed, vertical tab, form feed, carriage return and space.
\<close>

definition is_space :: "char \<Rightarrow> bool" where
  "is_space c \<longleftrightarrow> (of_char c :: nat) \<in> {9, 10, 11, 12, 13, 32}"

definition trim :: "string \<Rightarrow> string" where
  "trim s = rev (dropWhile is_space (rev (dropWhile is_space s)))"

definition toLowerCase :: "string \<Rightarrow> string" where
  "toLowerCase s =
     map (\<lambda>c. if 65 \<le> (of_char c :: nat) \<and> (of_char c :: nat) \<le> 90
              then char_of (of_char c + 32 :: nat) else c) s"

definition is_digit :: "char \<Rightarrow> bool" where
  "is_digit c \<longleftrightarrow> 48 \<le> (of_char c :: nat) \<and> (of_char c :: nat) \<le> 57"

definition digits_val :: "string \<Rightarrow> nat" where
  "digits_val ds = foldl (\<lambda>a c. 10 * a + (of_char c - 48)) 0 ds"

text \<open>
  The value that a literal denotes, before it is rounded: no literal, an infinity, or
  the exact decimal value.
\<close>

datatype literal = No_literal | Infinity bool | Decimal real

text \<open>
  An exponent part at the head of the text: its value and the text behind it. When
  there is none (no \<open>e\<close>, or no digit after it) the exponent is 0 and nothing is
  consumed.
\<close>

definition scan_exponent :: "string \<Rightarrow> int \<times> string" where
  "scan_exponent s =
     (case s of
        [] \<Rightarrow> (0, s)
      | e # r \<Rightarrow>
          if e = CHR ''e'' \<or> e = CHR ''E'' then
            let (sgn, r') =
                  (case r of
                     [] \<Rightarrow> (1, r)
                   | c # r1 \<Rightarrow>
                       if c = CHR ''-'' then (- 1, r1)
                       else if c = CHR ''+'' then (1, r1)
                       else (1, r))
            in if takeWhile is_digit r' = [] then (0, s)
               else (sgn * int (digits_val (takeWhile is_digit r')), dropWhile is_digit r')
          else (0, s))"

text \<open>
  The longest prefix that is an unsigned decimal literal (\<open>Infinity\<close>, \<open>12\<close>,
  \<open>12.\<close>, \<open>12.5\<close>, \<open>.5\<close>, each but the first with an optional exponent): its
  value and the text behind it.
\<close>

definition scan_unsigned :: "string \<Rightarrow> literal \<times> string" where
  "scan_unsigned s =
     (if take 8 s = ''Infinity'' then (Infinity True, drop 8 s)
      else
        let ip = takeWhile is_digit s; r1 = dropWhile is_digit s in
        case r1 of
          [] \<Rightarrow> if ip = [] then (No_literal, s) else (Decimal (real (digits_val ip)), [])
        | d # r2 \<Rightarrow>
            if d = CHR ''.'' then
              let fp = takeWhile is_digit r2; r3 = dropWhile is_digit r2 in
              if ip = [] \<and> fp = [] then (No_literal, s)
              else
                let (e, r4) = scan_exponent r3
                in (Decimal ((real (digits_val ip) + real (digits_val fp) / 10 ^ length fp)
                              * 10 powi e), r4)
            else if ip = [] then (No_literal, s)
            else
              let (e, r4) = scan_exponent r1
              in (Decimal (real (digits_val ip) * 10 powi e), r4))"

fun negate :: "literal \<Rightarrow> literal" where
  "negate No_literal = No_literal"
| "negate (Infinity positive) = Infinity (\<not> positive)"
| "negate (Decimal x) = Decimal (- x)"

definition scan_decimal :: "string \<Rightarrow> literal \<times> string" where
  "scan_decimal s =
     (case s of
        [] \<Rightarrow> (No_literal, s)
      | c # r \<Rightarrow>
          if c = CHR ''-'' then (let (v, r') = scan_unsigned r in (negate v, r'))
          else if c = CHR ''+'' then scan_unsigned r
          else scan_unsigned s)"

text \<open>The number of a literal: NaN for none, the nearest double for a decimal value.\<close>

fun number_of :: "literal \<Rightarrow> jsnum" where
  "number_of No_literal = NaN"
| "number_of (Infinity positive) = (if positive then PosInf else NegInf)"
| "number_of (Decimal x) = round_to_double x"

text \<open>\<open>parseFloat\<close>: leading white space is skipped, text behind the literal is ignored.\<close>

definition parseFloat :: "string \<Rightarrow> jsnum" where
  "parseFloat s = number_of (fst (scan_decimal (dropWhile is_space s)))"

text \<open>
  The conversion of a string to a number that the operator \<open>-\<close> applies: the whole
  trimmed text must be one literal, decimal or with a prefix \<open>0x\<close>, \<open>0o\<close> or
  \<open>0b\<close>; the empty text is 0.
\<close>

definition digit_of :: "char \<Rightarrow> nat" where
  "digit_of c =
     (let n = (of_char c :: nat) in
      if 48 \<le> n \<and> n \<le> 57 then n - 48
      else if 97 \<le> n \<and> n \<le> 102 then n - 87
      else if 65 \<le> n \<and> n \<le> 70 then n - 55
      else 16)"

definition non_decimal :: "string \<Rightarrow> literal" where
  "non_decimal s =
     (case s of
        z # x # ds \<Rightarrow>
          let base = (if x = CHR ''x'' \<or> x = CHR ''X'' then 16
                      else if x = CHR ''o'' \<or> x = CHR ''O'' then 8
                      else if x = CHR ''b'' \<or> x = CHR ''B'' then 2
                      else (0::nat))
          in if z = CHR ''0'' \<and> base \<noteq> 0 \<and> ds \<noteq> [] \<and> list_all (\<lambda>c. digit_of c < base) ds
             then Decimal (real (foldl (\<lambda>a c. base * a + digit_of c) 0 ds))
             else No_literal
      | _ \<Rightarrow> No_literal)"

definition StringToNumber :: "string \<Rightarrow> jsnum" where
  "StringToNumber s =
     (let t = trim s in
      if t = [] then Fin 0
      else if non_decimal t \<noteq> No_literal then number_of (non_decimal t)
      else case scan_decimal t of (v, r) \<Rightarrow> if r = [] then number_of v else NaN)"

section \<open>JavaScript values\<close>

datatype jsval = JUndefined | JNull | JNum jsnum | JStr string

text \<open>The values that count as false in a condition.\<close>

fun falsy :: "jsval \<Rightarrow> bool" where
  "falsy JUndefined = True"
| "falsy JNull = True"
| "falsy (JNum n) = (n = NaN \<or> n = Fin 0)"
| "falsy (JStr s) = (s = [])"

fun ToNumber :: "jsval \<Rightarrow> jsnum" where
  "ToNumber JUndefined = NaN"
| "ToNumber JNull = Fin 0"
| "ToNumber (JNum n) = n"
| "ToNumber (JStr s) = StringToNumber s"

text \<open>\<open>===\<close>: NaN equals nothing, itself included.\<close>

definition strict_eq :: "jsval \<Rightarrow> jsval \<Rightarrow> bool" where
  "strict_eq a b \<longleftrightarrow> a = b \<and> a \<noteq> JNum NaN"

text \<open>\<open>??\<close>: the right operand replaces \<open>null\<close> and \<open>undefined\<close> only.\<close>

definition nullish :: "jsval \<Rightarrow> jsval \<Rightarrow> jsval" where
  "nullish a d = (if a = JNull \<or> a = JUndefined then d else a)"

section \<open>parseNum\<close>

text \<open>
  The body of \<open>parseNum\<close> behind its first test, applied to the text of the argument
  (\<open>str.toString()\<close>).
\<close>

definition parseNum_text :: "string \<Rightarrow> jsnum option" where
  "parseNum_text s =
     (let str = filter (\<lambda>c. c \<noteq> CHR '','') (toLowerCase (trim s)) in
      if str = ''-'' then None
      else
        let suffix = (if str = [] then [] else [last str]) in
        if suffix = ''k'' then Some (jmul (parseFloat str) (Fin 1000))
        else if suffix = ''m'' then Some (jmul (parseFloat str) (Fin 1000000))
        else if suffix = ''b'' then Some (jmul (parseFloat str) (Fin 1000000000))
        else
          let n = parseFloat str in
          if n = NaN then None else Some n)"

text \<open>
  \<open>parseNum\<close>: \<open>null\<close> for a falsy argument. The text of a string is the string.
  The text of a finite number is its decimal rendering, which has no comma, ends in a
  digit and is read back by \<open>parseFloat\<close> as the same number, so a finite number that
  is not 0 comes back unchanged; an infinity is rendered as \<open>Infinity\<close> or
  \<open>-Infinity\<close>.
\<close>

fun parseNum :: "jsval \<Rightarrow> jsnum option" where
  "parseNum (JStr s) = (if s = [] then None else parseNum_text s)"
| "parseNum (JNum (Fin x)) = (if x = 0 then None else Some (Fin x))"
| "parseNum (JNum NaN) = None"
| "parseNum (JNum PosInf) = parseNum_text ''Infinity''"
| "parseNum (JNum NegInf) = parseNum_text ''-Infinity''"
| "parseNum JNull = None"
| "parseNum JUndefined = None"

section \<open>The upstream snapshot\<close>

text \<open>
  The bazaar snapshot as it arrives in JSON. Every product has its identifier and its
  quick status, and every order its price; a price is the decimal number of the JSON
  text, and each of the two weekly volumes is a count, or is missing (\<open>None\<close>). A number
  is read from the text as the nearest double. A summary that is missing or is not an
  array is \<open>None\<close>. The products are listed in the order of \<open>Object.values\<close>.
\<close>

record order =
  pricePerUnit :: real

record quick_status =
  buyMovingWeek :: "nat option"
  sellMovingWeek :: "nat option"

record product =
  product_id :: string
  quick_status :: quick_status
  buy_summary :: "order list option"
  sell_summary :: "order list option"

record api_response =
  success :: bool
  products :: "product list"

section \<open>The derivation of one card\<close>

text \<open>
  A card, with its numbers of type \<open>'n\<close>: JavaScript numbers on the server, and on the
  client a JavaScript number or \<open>null\<close>. The field \<open>raw\<close> holds the quick status whose
  JSON text the source stores.
\<close>

record 'n card =
  card_id :: string
  title :: string
  buy :: 'n
  sell :: 'n
  instabuy :: 'n
  instasell :: 'n
  margin :: 'n
  coinsPerHour :: 'n
  href :: string
  img :: string
  raw :: quick_status

text \<open>\<open>getMeanPrice\<close>: the mean of the first \<open>count\<close> prices, 0 for no summary.\<close>

definition getMeanPrice :: "order list option \<Rightarrow> nat \<Rightarrow> jsnum" where
  "getMeanPrice summary count' =
     (case summary of
        None \<Rightarrow> Fin 0
      | Some os \<Rightarrow>
          if os = [] then Fin 0
          else
            let limit = min (length os) count';
                sum = foldl (\<lambda>s i. jadd s (JSON_number (pricePerUnit (os ! i)))) (Fin 0) [0..<limit]
            in jdiv sum (Fin (real limit)))"

text \<open>
  The two reference prices: \<open>buyPrice\<close>, the high price, is the first price of the buy
  summary, and \<open>sellPrice\<close>, the low price, is the first price of the sell summary.
\<close>

definition buyPrice :: "product \<Rightarrow> jsnum" where
  "buyPrice p = getMeanPrice (buy_summary p) 1"

definition sellPrice :: "product \<Rightarrow> jsnum" where
  "sellPrice p = getMeanPrice (sell_summary p) 1"

text \<open>The margin, the local \<open>margin\<close> of the loop body.\<close>

definition taxMultiplier :: "jsnum \<Rightarrow> jsnum" where
  "taxMultiplier taxRate = jsub (Fin 1) (jdiv taxRate (Fin 100))"

definition product_margin :: "jsnum \<Rightarrow> product \<Rightarrow> jsnum" where
  "product_margin taxRate p = jsub (jmul (buyPrice p) (taxMultiplier taxRate)) (sellPrice p)"

text \<open>A weekly volume as the loop body reads it: a missing one is \<open>undefined\<close>, NaN in a division.\<close>

definition volume :: "nat option \<Rightarrow> jsnum" where
  "volume v = (case v of None \<Rightarrow> NaN | Some n \<Rightarrow> JSON_number (real n))"

definition instabuyHourly :: "product \<Rightarrow> jsnum" where
  "instabuyHourly p = Math_round (jdiv (volume (buyMovingWeek (quick_status p))) (Fin 168))"

definition instasellHourly :: "product \<Rightarrow> jsnum" where
  "instasellHourly p = Math_round (jdiv (volume (sellMovingWeek (quick_status p))) (Fin 168))"

definition replace_underscores :: "string \<Rightarrow> string" where
  "replace_underscores s = map (\<lambda>c. if c = CHR ''_'' then CHR '' '' else c) s"

text \<open>
  The body of the loop over the products: \<open>None\<close> when the product is skipped, the card
  pushed otherwise.
\<close>

definition flip_card :: "jsnum \<Rightarrow> product \<Rightarrow> jsnum card option" where
  "flip_card taxRate p =
     (if jle (buyPrice p) (Fin 0) \<or> jle (sellPrice p) (Fin 0) then None
      else
        let margin = product_margin taxRate p;
            coinsPerHour = jmul margin (Math_min (instabuyHourly p) (instasellHourly p))
        in
          if jgt margin (Fin 0) \<and> jgt (Math_min (instabuyHourly p) (instasellHourly p)) (Fin 10)
          then Some \<lparr>card_id = product_id p,
                     title = replace_underscores (product_id p),
                     buy = sellPrice p,
                     sell = buyPrice p,
                     instabuy = instabuyHourly p,
                     instasell = instasellHourly p,
                     margin = margin,
                     coinsPerHour = coinsPerHour,
                     href = ''https://skyblock.bz/product/'' @ product_id p,
                     img = ''https://sky.coflnet.com/static/icon/'' @ product_id p,
                     raw = quick_status p\<rparr>
          else None)"

section \<open>Sorting an array\<close>

text \<open>
  \<open>Array.prototype.sort\<close> with a comparison function, as ECMAScript specifies it. The
  sort reads a comparison by its sign, and a NaN comparison as 0. The comparison is
  consistent on the elements when being equal is reflexive, symmetric and transitive
  and being less and being greater are transitive.
\<close>

definition sort_compare :: "('a \<Rightarrow> 'a \<Rightarrow> jsnum) \<Rightarrow> 'a \<Rightarrow> 'a \<Rightarrow> int" where
  "sort_compare cmp a b =
     (if jlt (cmp a b) (Fin 0) then - 1 else if jgt (cmp a b) (Fin 0) then 1 else 0)"

definition consistent :: "('a \<Rightarrow> 'a \<Rightarrow> jsnum) \<Rightarrow> 'a list \<Rightarrow> bool" where
  "consistent cmp xs \<longleftrightarrow>
     list_all (\<lambda>a.
       sort_compare cmp a a = 0 \<and>
       list_all (\<lambda>b.
         (sort_compare cmp a b = 0 \<longrightarrow> sort_compare cmp b a = 0) \<and>
         list_all (\<lambda>c.
           (sort_compare cmp a b = 0 \<and> sort_compare cmp b c = 0 \<longrightarrow> sort_compare cmp a c = 0) \<and>
           (sort_compare cmp a b < 0 \<and> sort_compare cmp b c < 0 \<longrightarrow> sort_compare cmp a c < 0) \<and>
           (sort_compare cmp a b > 0 \<and> sort_compare cmp b c > 0 \<longrightarrow> sort_compare cmp a c > 0))
         xs) xs) xs"

text \<open>
  For a consistent comparison the result is determined: the elements in ascending order,
  equal elements in the order of the input. It is computed here by insertion, an element
  going behind another one only when their comparison is positive. For a comparison that
  is not consistent ECMAScript leaves the order to the implementation, and the result is
  \<open>None\<close>.
\<close>

fun insert_sorted :: "('a \<Rightarrow> 'a \<Rightarrow> jsnum) \<Rightarrow> 'a \<Rightarrow> 'a list \<Rightarrow> 'a list" where
  "insert_sorted cmp x [] = [x]"
| "insert_sorted cmp x (y # ys) =
     (if sort_compare cmp x y > 0 then y # insert_sorted cmp x ys else x # y # ys)"

definition array_sort :: "('a \<Rightarrow> 'a \<Rightarrow> jsnum) \<Rightarrow> 'a list \<Rightarrow> 'a list option" where
  "array_sort cmp xs =
     (if consistent cmp xs then Some (foldr (insert_sorted cmp) xs []) else None)"

section \<open>The ranked list, the cache and the endpoint\<close>

definition cards :: "jsnum \<Rightarrow> product list \<Rightarrow> jsnum card list" where
  "cards taxRate ps = List.map_filter (flip_card taxRate) ps"

text \<open>
  The cards sorted by coins per hour and cut to 100. The comparison of two emitted cards
  is always consistent (lemma \<open>cards_consistent\<close> below), so the sort has a result and
  the second case does not arise.
\<close>

definition topCards :: "jsnum \<Rightarrow> product list \<Rightarrow> jsnum card list" where
  "topCards taxRate ps =
     take 100
       (case array_sort (\<lambda>a b. jsub (coinsPerHour b) (coinsPerHour a)) (cards taxRate ps) of
          Some sorted_cards \<Rightarrow> sorted_cards
        | None \<Rightarrow> cards taxRate ps)"

text \<open>
  The cache key is the text \<open>flips_\<close> followed by the tax rate. The text of a number
  determines the number, so the key is modelled as the namespace applied to the number.
  The cache maps a key to the list stored under it; an entry that has expired is absent.
\<close>

datatype cache_key = Flips jsnum

type_synonym cache = "cache_key \<rightharpoonup> jsnum card list"

datatype error = Error (message: string)

text \<open>
  \<open>getBazaarData\<close>, with the cache passed in and returned. The argument \<open>upstream\<close>
  is what the request to the bazaar gives when it is made: an error when the request
  fails, the body of the answer otherwise.
\<close>

definition getBazaarData :: "cache \<Rightarrow> error + api_response \<Rightarrow> jsnum \<Rightarrow> (error + jsnum card list) \<times> cache" where
  "getBazaarData cache upstream taxRate =
     (let cacheKey = Flips taxRate in
      case cache cacheKey of
        Some cached \<Rightarrow> (Inr cached, cache)
      | None \<Rightarrow>
          (case upstream of
             Inl e \<Rightarrow> (Inl e, cache)
           | Inr response \<Rightarrow>
               if \<not> success response then (Inl (Error ''Hypixel API failed''), cache)
               else
                 let top = topCards taxRate (products response)
                 in (Inr top, cache(cacheKey \<mapsto> top))))"

text \<open>The tax rate of a request: the query parameter \<open>tax\<close> when it is there and not empty.\<close>

definition request_tax :: "string option \<Rightarrow> jsnum" where
  "request_tax q =
     (case q of
        None \<Rightarrow> Fin 1.25
      | Some s \<Rightarrow> if s = [] then Fin 1.25 else parseFloat s)"

datatype json_body = Flips_ok "jsnum card list" | Flips_failed string

fun body_success :: "json_body \<Rightarrow> bool" where
  "body_success (Flips_ok data) = True"
| "body_success (Flips_failed err) = False"

record http_response =
  status :: nat
  body :: json_body

definition api_flips :: "cache \<Rightarrow> error + api_response \<Rightarrow> string option \<Rightarrow> http_response \<times> cache" where
  "api_flips cache upstream q =
     (let tax = request_tax q in
      case getBazaarData cache upstream tax of
        (Inr data, cache') \<Rightarrow> (\<lparr>status = 200, body = Flips_ok data\<rparr>, cache')
      | (Inl err, cache') \<Rightarrow> (\<lparr>status = 500, body = Flips_failed (message err)\<rparr>, cache'))"

text \<open>
  The caches that the server can hold: it starts empty, every call of \<open>getBazaarData\<close>
  (at start-up with the default rate, later from the endpoint) leaves its cache behind,
  and an entry may expire.
\<close>

inductive reachable :: "cache \<Rightarrow> bool" where
  start: "reachable Map.empty"
| call: "reachable c \<Longrightarrow> reachable (snd (getBazaarData c upstream taxRate))"
| expire: "reachable c \<Longrightarrow> reachable (c(k := None))"

section \<open>The client\<close>

text \<open>
  The cards as the client receives them: JSON carries a finite number as it is and
  turns NaN and the infinities into \<open>null\<close>.
\<close>

definition json_number :: "jsnum \<Rightarrow> jsnum option" where
  "json_number n = (case n of Fin x \<Rightarrow> Some (Fin x) | _ \<Rightarrow> None)"

definition item_of_card :: "jsnum card \<Rightarrow> jsnum option card" where
  "item_of_card c =
     \<lparr>card_id = card_id c, title = title c,
      buy = json_number (buy c), sell = json_number (sell c),
      instabuy = json_number (instabuy c), instasell = json_number (instasell c),
      margin = json_number (margin c), coinsPerHour = json_number (coinsPerHour c),
      href = href c, img = img c, raw = raw c\<rparr>"

text \<open>\<open>v || 0\<close> for a field that is a number or \<open>null\<close>: 0 for \<open>null\<close>, NaN and 0.\<close>

definition or_zero :: "jsnum option \<Rightarrow> jsnum" where
  "or_zero v = (case v of None \<Rightarrow> Fin 0 | Some n \<Rightarrow> if n = NaN then Fin 0 else n)"

text \<open>The recomputation of margin and coins per hour under the tax rate of the client.\<close>

definition recompute :: "jsnum \<Rightarrow> jsnum option card \<Rightarrow> jsnum option card" where
  "recompute tax item =
     (let highPrice = or_zero (buy item);
          lowPrice = or_zero (sell item);
          taxMultiplier = jsub (Fin 1) (jdiv tax (Fin 100));
          newMargin = jsub (jmul highPrice taxMultiplier) lowPrice;
          volume = Math_min (or_zero (instabuy item)) (or_zero (instasell item));
          newCPH = jmul newMargin volume
      in item\<lparr>margin := Some newMargin, coinsPerHour := Some newCPH\<rparr>)"

datatype sort_field =
  By_margin | By_buy | By_sell | By_instabuy | By_instasell | By_coinsPerHour | By_title

datatype sort_dir = Asc | Desc

definition js_number :: "jsnum option \<Rightarrow> jsval" where
  "js_number v = (case v of None \<Rightarrow> JNull | Some n \<Rightarrow> JNum n)"

fun field_value :: "sort_field \<Rightarrow> jsnum option card \<Rightarrow> jsval" where
  "field_value By_margin a = js_number (margin a)"
| "field_value By_buy a = js_number (buy a)"
| "field_value By_sell a = js_number (sell a)"
| "field_value By_instabuy a = js_number (instabuy a)"
| "field_value By_instasell a = js_number (instasell a)"
| "field_value By_coinsPerHour a = js_number (coinsPerHour a)"
| "field_value By_title a = JStr (title a)"

definition compare_items :: "sort_field \<Rightarrow> sort_dir \<Rightarrow> jsnum option card \<Rightarrow> jsnum option card \<Rightarrow> jsnum" where
  "compare_items sortBy sortDir a b =
     (let A = nullish (field_value sortBy a) (JNum NegInf);
          B = nullish (field_value sortBy b) (JNum NegInf)
      in if strict_eq A B then Fin 0
         else if sortDir = Asc then jsub (ToNumber A) (ToNumber B)
         else jsub (ToNumber B) (ToNumber A))"

definition sorted_items :: "sort_field \<Rightarrow> sort_dir \<Rightarrow> jsnum option card list \<Rightarrow> jsnum option card list option" where
  "sorted_items sortBy sortDir filtered = array_sort (compare_items sortBy sortDir) filtered"

section \<open>The keys of the sorts\<close>

text \<open>
  The place of a number in the ascending order of the numbers that are not NaN, as a
  pair that is compared lexicographically.
\<close>

fun rank :: "jsnum \<Rightarrow> nat \<times> real" where
  "rank NegInf = (0, 0)"
| "rank (Fin x) = (1, x)"
| "rank PosInf = (2, 0)"
| "rank NaN = (3, 0)"

text \<open>The place of an element in a sort: the number of elements that compare less.\<close>

definition sort_position :: "('a \<Rightarrow> 'a \<Rightarrow> jsnum) \<Rightarrow> 'a list \<Rightarrow> 'a \<Rightarrow> nat" where
  "sort_position cmp xs a = length (filter (\<lambda>c. sort_compare cmp c a < 0) xs)"

text \<open>
  The number by which the client compares a card: the value of the sort field, with
  \<open>-Infinity\<close> in the place of \<open>null\<close>.
\<close>

definition sort_number :: "sort_field \<Rightarrow> jsnum option card \<Rightarrow> jsnum" where
  "sort_number sortBy a = ToNumber (nullish (field_value sortBy a) (JNum NegInf))"

section \<open>Example data\<close>

definition example_product :: product where
  "example_product =
     \<lparr>product_id = ''ENCHANTED_DIAMOND'',
      quick_status = \<lparr>buyMovingWeek = Some 2016, sellMovingWeek = Some 2016\<rparr>,
      buy_summary = Some [\<lparr>pricePerUnit = 100\<rparr>],
      sell_summary = Some [\<lparr>pricePerUnit = 90\<rparr>]\<rparr>"

definition no_sell_orders_product :: product where
  "no_sell_orders_product =
     \<lparr>product_id = ''ENCHANTED_DIAMOND'',
      quick_status = \<lparr>buyMovingWeek = Some 2016, sellMovingWeek = Some 2016\<rparr>,
      buy_summary = Some [\<lparr>pricePerUnit = 100\<rparr>],
      sell_summary = Some []\<rparr>"

definition idle_product :: product where
  "idle_product =
     \<lparr>product_id = ''ENCHANTED_DIAMOND'',
      quick_status = \<lparr>buyMovingWeek = Some 0, sellMovingWeek = Some 2016\<rparr>,
      buy_summary = Some [\<lparr>pricePerUnit = 100\<rparr>],
      sell_summary = Some [\<lparr>pricePerUnit = 90\<rparr>]\<rparr>"

definition busy_product :: product where
  "busy_product =
     \<lparr>product_id = ''ENCHANTED_GOLD'',
      quick_status = \<lparr>buyMovingWeek = Some 16800, sellMovingWeek = Some 33600\<rparr>,
      buy_summary = Some [\<lparr>pricePerUnit = 200\<rparr>, \<lparr>pricePerUnit = 199\<rparr>],
      sell_summary = Some [\<lparr>pricePerUnit = 150\<rparr>]\<rparr>"

definition thin_product :: product where
  "thin_product =
     \<lparr>product_id = ''COBBLESTONE'',
      quick_status = \<lparr>buyMovingWeek = Some 2016, sellMovingWeek = Some 2016\<rparr>,
      buy_summary = Some [\<lparr>pricePerUnit = 10\<rparr>],
      sell_summary = Some [\<lparr>pricePerUnit = 3\<rparr>]\<rparr>"

definition tight_product :: product where
  "tight_product =
     \<lparr>product_id = ''WHEAT'',
      quick_status = \<lparr>buyMovingWeek = Some 2016, sellMovingWeek = Some 2016\<rparr>,
      buy_summary = Some [\<lparr>pricePerUnit = 12\<rparr>],
      sell_summary = Some [\<lparr>pricePerUnit = 11.85\<rparr>]\<rparr>"

definition unreported_product :: product where
  "unreported_product =
     \<lparr>product_id = ''ENCHANTED_DIAMOND'',
      quick_status = \<lparr>buyMovingWeek = Some 0, sellMovingWeek = None\<rparr>,
      buy_summary = Some [\<lparr>pricePerUnit = 100\<rparr>],
      sell_summary = Some [\<lparr>pricePerUnit = 90\<rparr>]\<rparr>"

definition example_upstream :: "error + api_response" where
  "example_upstream = Inr \<lparr>success = True, products = [example_product]\<rparr>"

definition failing_upstream :: "error + api_response" where
  "failing_upstream = Inr \<lparr>success = False, products = []\<rparr>"

definition example_item :: "string \<Rightarrow> jsnum option \<Rightarrow> jsnum option card" where
  "example_item t b =
     \<lparr>card_id = t, title = t, buy = b, sell = Some (Fin 1), instabuy = Some (Fin 20),
      instasell = Some (Fin 30), margin = Some (Fin 2), coinsPerHour = Some (Fin 40),
      href = [], img = [], raw = \<lparr>buyMovingWeek = Some 0, sellMovingWeek = Some 0\<rparr>\<rparr>"

definition example_items :: "jsnum option card list" where
  "example_items =
     [example_item ''A'' (Some (Fin 5)), example_item ''B'' None,
      example_item ''C'' (Some (Fin 5)), example_item ''D'' (Some (Fin 9))]"

definition mixed_titles :: "jsnum option card list" where
  "mixed_titles =
     [example_item ''3'' None, example_item ''x'' None, example_item ''2'' None]"

section \<open>Rounding to a double\<close>

lemma bits_pos: "0 < n \<Longrightarrow> 0 < bits n"
  by (simp add: bits.simps [of n])

lemma bits_bounds: "0 < n \<Longrightarrow> 2 ^ (bits n - 1) \<le> n \<and> n < 2 ^ bits n"
proof (induction n rule: bits.induct)
  case (1 n)
  have b: "bits n = Suc (bits (n div 2))"
    using 1(2) by (simp add: bits.simps [of n])
  show ?case
  proof (cases "n div 2 = 0")
    case True
    with 1(2) have "n = 1" by (simp add: div_eq_0_iff)
    thus ?thesis by (simp add: bits.simps)
  next
    case False
    hence IH: "2 ^ (bits (n div 2) - 1) \<le> n div 2 \<and> n div 2 < 2 ^ bits (n div 2)"
      using 1 by simp
    have pos: "0 < bits (n div 2)" using False by (simp add: bits_pos)
    have "(2::nat) ^ bits (n div 2) = 2 * 2 ^ (bits (n div 2) - 1)"
      using pos by (cases "bits (n div 2)") simp_all
    hence lo: "2 ^ bits (n div 2) \<le> n" using IH by linarith
    have hi: "n < 2 * 2 ^ bits (n div 2)" using IH by linarith
    show ?thesis using lo hi by (simp add: b)
  qed
qed

lemma bits_bounds_real:
  assumes "0 < n"
  shows "2 ^ (bits n - 1) \<le> real n" and "real n + 1 \<le> 2 ^ bits n"
proof -
  from bits_bounds [OF assms] have a: "2 ^ (bits n - 1) \<le> n" and b: "Suc n \<le> 2 ^ bits n"
    by simp_all
  from a have "real (2 ^ (bits n - 1)) \<le> real n" by (rule of_nat_mono)
  thus "2 ^ (bits n - 1) \<le> real n" by simp
  from b have "real (Suc n) \<le> real (2 ^ bits n)" by (rule of_nat_mono)
  thus "real n + 1 \<le> 2 ^ bits n" by simp
qed

lemma nat_floor_bounds:
  assumes "1 \<le> (b::real)"
  shows "0 < nat \<lfloor>b\<rfloor>" and "real (nat \<lfloor>b\<rfloor>) \<le> b" and "b < real (nat \<lfloor>b\<rfloor>) + 1"
proof -
  have f: "1 \<le> \<lfloor>b\<rfloor>" using assms by linarith
  thus "0 < nat \<lfloor>b\<rfloor>" by simp
  have r: "real (nat \<lfloor>b\<rfloor>) = of_int \<lfloor>b\<rfloor>" using f by simp
  show "real (nat \<lfloor>b\<rfloor>) \<le> b" unfolding r by (rule of_int_floor_le)
  show "b < real (nat \<lfloor>b\<rfloor>) + 1" unfolding r by linarith
qed

lemma two_powi_pos: "0 < (2::real) powi e"
  by simp

lemma two_powi_less_iff: "(2::real) powi a < 2 powi b \<longleftrightarrow> a < b"
proof
  assume l: "(2::real) powi a < 2 powi b"
  show "a < b"
  proof (rule ccontr)
    assume "\<not> a < b"
    hence "b \<le> a" by simp
    hence "(2::real) powi b \<le> 2 powi a" by (intro power_int_increasing) simp_all
    with l show False by simp
  qed
next
  assume "a < b"
  thus "(2::real) powi a < 2 powi b" by (intro power_int_strict_increasing) simp_all
qed

lemma two_powi_le_iff: "(2::real) powi a \<le> 2 powi b \<longleftrightarrow> a \<le> b"
  using two_powi_less_iff [of b a] by (simp add: not_less [symmetric])

lemma two_powi_add: "(2::real) powi (a + b) = 2 powi a * 2 powi b"
  by (simp add: power_int_add)

lemma two_powi_diff: "(2::real) powi (a - b) = 2 powi a / 2 powi b"
  by (simp add: power_int_diff)

lemma two_powi_nat: "0 \<le> a \<Longrightarrow> (2::real) powi a = of_int (2 ^ nat a)"
  by (simp add: power_int_nonneg_exp)

lemma expo_bounds:
  assumes "x \<noteq> 0"
  shows "2 powi expo x \<le> \<bar>x\<bar> \<and> \<bar>x\<bar> < 2 powi (expo x + 1)"
proof (cases "1 \<le> \<bar>x\<bar>")
  case True
  define n where "n = nat \<lfloor>\<bar>x\<bar>\<rfloor>"
  have n1: "0 < n" unfolding n_def using True by (rule nat_floor_bounds)
  have e: "expo x = int (bits n) - 1" using True by (simp add: expo_def n_def Let_def)
  have bp: "0 < bits n" using n1 by (rule bits_pos)
  have e': "expo x = int (bits n - 1)" using bp e by simp
  have nle: "real n \<le> \<bar>x\<bar>" unfolding n_def using True by (rule nat_floor_bounds)
  have nlt: "\<bar>x\<bar> < real n + 1" unfolding n_def using True by (rule nat_floor_bounds)
  have "2 ^ (bits n - 1) \<le> real n" and "real n + 1 \<le> 2 ^ bits n"
    using bits_bounds_real [OF n1] by simp_all
  hence lo: "2 ^ (bits n - 1) \<le> \<bar>x\<bar>" and hi: "\<bar>x\<bar> < 2 ^ bits n"
    using nle nlt by linarith+
  have p1: "(2::real) powi expo x = 2 ^ (bits n - 1)"
    unfolding e' by (rule power_int_of_nat)
  have "expo x + 1 = int (bits n)" using e by simp
  hence p2: "(2::real) powi (expo x + 1) = 2 ^ bits n"
    by (simp only: power_int_of_nat)
  show ?thesis unfolding p1 p2 using lo hi by (intro conjI)
next
  case False
  define a where "a = \<bar>x\<bar>"
  have a0: "0 < a" and a1: "a < 1" using False assms by (simp_all add: a_def)
  define n where "n = nat \<lfloor>1 / a\<rfloor>"
  define k where "k = int (bits n) - 1"
  have b1: "1 \<le> 1 / a" using a0 a1 by simp
  have n1: "0 < n" unfolding n_def using b1 by (rule nat_floor_bounds)
  have bp: "0 < bits n" using n1 by (rule bits_pos)
  have k': "k = int (bits n - 1)" using bp by (simp add: k_def)
  have nle: "real n \<le> 1 / a" unfolding n_def using b1 by (rule nat_floor_bounds)
  have nlt: "1 / a < real n + 1" unfolding n_def using b1 by (rule nat_floor_bounds)
  have "2 ^ (bits n - 1) \<le> real n" and "real n + 1 \<le> 2 ^ bits n"
    using bits_bounds_real [OF n1] by simp_all
  hence lo: "2 ^ (bits n - 1) \<le> 1 / a" and hi: "1 / a < 2 ^ bits n"
    using nle nlt by linarith+
  have pk: "(2::real) powi k = 2 ^ (bits n - 1)"
    unfolding k' by (rule power_int_of_nat)
  have "k + 1 = int (bits n)" by (simp add: k_def)
  hence pk1: "(2::real) powi (k + 1) = 2 ^ bits n"
    by (simp only: power_int_of_nat)
  have lo': "a * 2 powi k \<le> 1" unfolding pk using lo a0 by (simp add: field_simps)
  have hi': "1 < a * 2 powi (k + 1)" unfolding pk1 using hi a0 by (simp add: field_simps)
  have ex: "expo x = (if a * 2 powi k = 1 then - k else - k - 1)"
    using False assms by (simp add: expo_def Let_def a_def n_def k_def)
  have m1: "(2::real) powi (- k) = 1 / 2 powi k" by (simp add: power_int_minus_divide)
  have m2: "(2::real) powi (- k - 1) = 1 / 2 powi (k + 1)"
    using power_int_minus_divide [of "2::real" "k + 1"] by simp
  show ?thesis
  proof (cases "a * 2 powi k = 1")
    case True
    hence e: "expo x = - k" using ex by simp
    have a: "a = 2 powi (- k)" using True by (simp add: m1 field_simps)
    have A: "2 powi (- k) \<le> a" by (simp add: a)
    have B: "a < 2 powi (- k + 1)" unfolding a by (simp only: two_powi_less_iff)
    show ?thesis unfolding e a_def [symmetric] using A B by (intro conjI)
  next
    case False
    hence e: "expo x = - k - 1" using ex by simp
    have "a * 2 powi k < 1" using False lo' by simp
    hence "a < 1 / 2 powi k" by (simp add: field_simps)
    hence B: "a < 2 powi (- k)" by (simp only: m1)
    have "1 / 2 powi (k + 1) < a" using hi' by (simp add: field_simps)
    hence A: "2 powi (- k - 1) \<le> a" by (simp only: m2)
    have s: "- k - 1 + 1 = - k" by simp
    show ?thesis unfolding e a_def [symmetric] s using A B by (intro conjI)
  qed
qed

lemma expo_less:
  assumes "x \<noteq> 0" and "\<bar>x\<bar> < 2 powi e"
  shows "expo x < e"
proof -
  have "2 powi expo x \<le> \<bar>x\<bar>" using expo_bounds [OF assms(1)] by simp
  hence "(2::real) powi expo x < 2 powi e" using assms(2) by simp
  thus ?thesis by (simp add: two_powi_less_iff)
qed

lemma expo_minus: "expo (- x) = expo x"
  by (simp add: expo_def)

lemma round_even_int: "round_even (of_int n) = n"
  by (simp add: round_even_def)

lemma round_even_mono:
  assumes "r \<le> s"
  shows "round_even r \<le> round_even s"
proof -
  have f: "\<lfloor>r\<rfloor> \<le> \<lfloor>s\<rfloor>" using assms by (rule floor_mono)
  have lo: "\<lfloor>s\<rfloor> \<le> round_even s" by (simp add: round_even_def Let_def)
  have hi: "round_even r \<le> \<lfloor>r\<rfloor> + 1" by (simp add: round_even_def Let_def)
  show ?thesis
  proof (cases "\<lfloor>r\<rfloor> = \<lfloor>s\<rfloor>")
    case True
    thus ?thesis using assms by (auto simp add: round_even_def Let_def)
  next
    case False
    thus ?thesis using f lo hi by linarith
  qed
qed

lemma round_even_minus: "round_even (- r) = - round_even r"
proof (cases "r \<in> \<int>")
  case True
  then obtain n where "r = of_int n" by (auto elim: Ints_cases)
  thus ?thesis using round_even_int [of "- n"] by (simp add: round_even_int)
next
  case False
  hence ne: "r \<noteq> of_int \<lfloor>r\<rfloor>" by (metis Ints_of_int)
  have f: "\<lfloor>- r\<rfloor> = - \<lfloor>r\<rfloor> - 1" using ne by (simp add: floor_minus ceiling_altdef)
  show ?thesis unfolding round_even_def Let_def f by (auto simp add: field_simps)
qed

lemma round_to_double_minus: "round_to_double (- x) = jneg (round_to_double x)"
proof -
  define q where "q = (2::real) powi (max (expo x) (- 1022) - 52)"
  have q: "0 < q" by (simp add: q_def)
  have y: "of_int (round_even (- x / q)) * q = - (of_int (round_even (x / q)) * q)"
    using round_even_minus [of "x / q"] by simp
  have z: "x = 0 \<Longrightarrow> of_int (round_even (x / q)) * q = 0" by (simp add: round_even_def)
  show ?thesis
    unfolding round_to_double_def expo_minus Let_def q_def [symmetric] y
    using z q by (cases "x = 0") (auto simp add: not_less)
qed

lemma round_to_double_0: "round_to_double 0 = Fin 0"
  by (simp add: round_to_double_def round_even_def)

lemma round_to_double_not_NaN: "round_to_double x \<noteq> NaN"
  by (simp add: round_to_double_def Let_def)

lemma two_powi_53: "2 ^ 53 * 2 powi (e - 52) = (2::real) powi (e + 1)"
proof -
  have eq: "e + 1 = 53 + (e - 52)" by simp
  show ?thesis by (subst eq, subst two_powi_add, simp)
qed

lemma scaled_bound:
  assumes "expo x \<le> e"
  shows "\<bar>x / 2 powi (e - 52)\<bar> < 2 ^ 53"
proof (cases "x = 0")
  case True
  thus ?thesis by simp
next
  case False
  have "\<bar>x\<bar> < 2 powi (expo x + 1)" using expo_bounds [OF False] by simp
  also have "\<dots> \<le> 2 powi (e + 1)" using assms by (simp only: two_powi_le_iff, simp?)
  also have "\<dots> = 2 ^ 53 * 2 powi (e - 52)" by (rule two_powi_53 [symmetric])
  finally have "\<bar>x\<bar> < 2 ^ 53 * 2 powi (e - 52)" .
  moreover have "0 < (2::real) powi (e - 52)" by simp
  ultimately show ?thesis by (simp add: field_simps abs_mult)
qed

lemma round_even_bound:
  assumes "\<bar>r\<bar> \<le> of_int N"
  shows "\<bar>round_even r\<bar> \<le> N"
proof -
  have "r \<le> of_int N" and "of_int (- N) \<le> r" using assms by simp_all
  hence "round_even r \<le> round_even (of_int N)" and "round_even (of_int (- N)) \<le> round_even r"
    by (simp_all only: round_even_mono)
  thus ?thesis by (simp only: round_even_int, simp?)
qed

lemma double_range:
  assumes "round_to_double x = Fin y"
  shows "\<exists>m e. y = of_int m * 2 powi (e - 52) \<and> \<bar>m\<bar> < 2 ^ 53 \<and> - 1022 \<le> e \<and> \<bar>y\<bar> < 2 powi 1024"
proof -
  define e where "e = max (expo x) (- 1022)"
  define m where "m = round_even (x / 2 powi (e - 52))"
  have r: "round_to_double x =
      (if 2 powi 1024 \<le> \<bar>of_int m * (2::real) powi (e - 52)\<bar> then (if 0 < x then PosInf else NegInf)
       else Fin (of_int m * 2 powi (e - 52)))"
    unfolding round_to_double_def Let_def e_def m_def ..
  have y: "y = of_int m * 2 powi (e - 52)" and small: "\<bar>y\<bar> < 2 powi 1024"
    using assms unfolding r by (auto split: if_splits)
  have e1: "- 1022 \<le> e" and e2: "expo x \<le> e" by (simp_all add: e_def)
  have "\<bar>x / 2 powi (e - 52)\<bar> \<le> of_int (2 ^ 53)"
    using scaled_bound [OF e2] by simp
  hence mb: "\<bar>m\<bar> \<le> 2 ^ 53" unfolding m_def by (rule round_even_bound)
  show ?thesis
  proof (cases "\<bar>m\<bar> < 2 ^ 53")
    case True
    thus ?thesis using y e1 small by blast
  next
    case False
    hence "m = 2 ^ 53 \<or> m = - (2 ^ 53)" using mb by linarith
    moreover have "(2::real) powi (e + 1 - 52) = 2 * 2 powi (e - 52)"
      using two_powi_add [of 1 "e - 52"] by (simp add: algebra_simps)
    ultimately have "y = of_int (m div 2) * 2 powi (e + 1 - 52)" and "\<bar>m div 2\<bar> < 2 ^ 53"
      using y by auto
    moreover have "- 1022 \<le> e + 1" using e1 by simp
    ultimately show ?thesis using small by blast
  qed
qed

lemma double_fix:
  assumes y: "y = of_int m * 2 powi (e - 52)" and m: "\<bar>m\<bar> < 2 ^ 53" and e: "- 1022 \<le> e"
    and small: "\<bar>y\<bar> < 2 powi 1024"
  shows "round_to_double y = Fin y"
proof (cases "y = 0")
  case True
  thus ?thesis by (simp add: round_to_double_0)
next
  case False
  have "\<bar>y\<bar> = of_int \<bar>m\<bar> * 2 powi (e - 52)" by (simp add: y abs_mult)
  also have "\<dots> < 2 ^ 53 * 2 powi (e - 52)"
  proof -
    have "(of_int \<bar>m\<bar> :: real) < of_int (2 ^ 53)" using m by (simp only: of_int_less_iff)
    thus ?thesis by simp
  qed
  also have "\<dots> = 2 powi (e + 1)" by (rule two_powi_53)
  finally have "expo y < e + 1" using False by (intro expo_less)
  define e' where "e' = max (expo y) (- 1022)"
  have le: "e' \<le> e" using \<open>expo y < e + 1\<close> e by (simp add: e'_def)
  define d where "d = nat (e - e')"
  have "(2::real) powi (e - 52) = 2 powi (e - e') * 2 powi (e' - 52)"
    using two_powi_add [of "e - e'" "e' - 52"] by simp
  also have "(2::real) powi (e - e') = of_int (2 ^ d)"
    unfolding d_def using le by (intro two_powi_nat) simp
  finally have p: "(2::real) powi (e - 52) = of_int (2 ^ d) * 2 powi (e' - 52)" .
  have q: "y / 2 powi (e' - 52) = of_int (m * 2 ^ d)"
    unfolding y p by simp
  have restored: "of_int (m * 2 ^ d) * 2 powi (e' - 52) = y"
    unfolding y p by simp
  show ?thesis
    unfolding round_to_double_def Let_def e'_def [symmetric] q round_even_int restored
    using small by simp
qed

lemma double_iff:
  "double y \<longleftrightarrow>
     (\<exists>m e. y = of_int m * 2 powi (e - 52) \<and> \<bar>m\<bar> < 2 ^ 53 \<and> - 1022 \<le> e \<and> \<bar>y\<bar> < 2 powi 1024)"
  unfolding double_def using double_range [of y y] double_fix [of y] by blast

lemma round_to_double_double:
  assumes "round_to_double x = Fin y"
  shows "double y"
  unfolding double_iff using assms by (rule double_range)

lemma double_minus: "double (- y) \<longleftrightarrow> double y"
proof -
  have "jneg a = Fin (- y) \<longleftrightarrow> a = Fin y" for a by (cases a) simp_all
  thus ?thesis by (simp add: double_def round_to_double_minus)
qed

lemma double_grid:
  assumes "double y"
  shows "\<exists>k::int. y = of_int k * 2 powi (- 1074)"
proof -
  from assms obtain m e where y: "y = of_int m * 2 powi (e - 52)" and e: "- 1022 \<le> e"
    unfolding double_iff by blast
  have "(2::real) powi (e - 52) = 2 powi (e + 1022) * 2 powi (- 1074)"
    using two_powi_add [of "e + 1022" "- 1074"] by simp
  also have "(2::real) powi (e + 1022) = of_int (2 ^ nat (e + 1022))"
    using e by (intro two_powi_nat) simp
  finally have "y = of_int (m * 2 ^ nat (e + 1022)) * 2 powi (- 1074)"
    unfolding y by simp
  thus ?thesis ..
qed

lemma double_diff:
  assumes "double x" and "double y" and "x < y"
  shows "2 powi (- 1074) \<le> y - x"
proof -
  from double_grid [OF assms(1)] obtain k :: int where x: "x = of_int k * 2 powi (- 1074)" ..
  from double_grid [OF assms(2)] obtain l :: int where y: "y = of_int l * 2 powi (- 1074)" ..
  have q: "0 < (2::real) powi (- 1074)" by (rule two_powi_pos)
  have "(of_int k :: real) < of_int l" using assms(3) q unfolding x y by (simp only: mult_less_cancel_right_pos)
  hence "k + 1 \<le> l" by simp
  hence "(of_int (k + 1) :: real) \<le> of_int l" by (simp only: of_int_le_iff)
  hence "(of_int k + 1) * 2 powi (- 1074) \<le> of_int l * (2::real) powi (- 1074)"
    using q by (simp only: mult_le_cancel_right_pos of_int_add of_int_1)
  thus ?thesis unfolding x y by (simp only: algebra_simps, simp?)
qed

lemma round_to_double_nonneg:
  assumes "0 \<le> z"
  shows "round_to_double z = PosInf \<or> (\<exists>y. round_to_double z = Fin y \<and> 0 \<le> y)"
proof (cases "z = 0")
  case True
  thus ?thesis by (simp add: round_to_double_0)
next
  case False
  define q where "q = (2::real) powi (max (expo z) (- 1022) - 52)"
  have q: "0 < q" unfolding q_def by (rule two_powi_pos)
  have "0 \<le> z / q" using assms q by simp
  hence "round_even (of_int 0) \<le> round_even (z / q)" by (simp only: round_even_mono of_int_0)
  hence "0 \<le> round_even (z / q)" by (simp only: round_even_int)
  hence "0 \<le> of_int (round_even (z / q)) * q" using q by simp
  thus ?thesis
    unfolding round_to_double_def Let_def q_def [symmetric] using False assms by auto
qed

lemma round_to_double_pos:
  assumes "2 powi (- 1074) \<le> z"
  shows "round_to_double z = PosInf \<or> (\<exists>y. round_to_double z = Fin y \<and> 0 < y)"
proof -
  have z: "0 < z" using assms two_powi_pos [of "- 1074"] by linarith
  define e where "e = max (expo z) (- 1022)"
  define q where "q = (2::real) powi (e - 52)"
  have q: "0 < q" unfolding q_def by (rule two_powi_pos)
  have "q \<le> z"
  proof (cases "- 1022 \<le> expo z")
    case True
    hence "e = expo z" by (simp add: e_def)
    hence "q \<le> 2 powi expo z" unfolding q_def by (simp only: two_powi_le_iff, simp?)
    also have "\<dots> \<le> \<bar>z\<bar>" using expo_bounds [of z] z by simp
    finally show ?thesis using z by simp
  next
    case False
    hence "e = - 1022" by (simp add: e_def)
    hence "q = 2 powi (- 1074)" by (simp add: q_def)
    thus ?thesis using assms by simp
  qed
  hence "1 \<le> z / q" using q by simp
  hence "round_even (of_int 1) \<le> round_even (z / q)" by (simp only: round_even_mono of_int_1)
  hence "1 \<le> round_even (z / q)" by (simp only: round_even_int)
  hence "0 < of_int (round_even (z / q)) * q" using q by simp
  thus ?thesis
    unfolding round_to_double_def Let_def e_def [symmetric] q_def [symmetric] using z by auto
qed

lemma round_to_double_neg:
  assumes "z \<le> - (2 powi (- 1074))"
  shows "round_to_double z = NegInf \<or> (\<exists>y. round_to_double z = Fin y \<and> y < 0)"
proof -
  have "2 powi (- 1074) \<le> - z" using assms by simp
  from round_to_double_pos [OF this] show ?thesis
    unfolding round_to_double_minus by (cases "round_to_double z") auto
qed

lemma round_to_double_nonpos:
  assumes "z \<le> 0"
  shows "round_to_double z = NegInf \<or> (\<exists>y. round_to_double z = Fin y \<and> y \<le> 0)"
proof -
  have "0 \<le> - z" using assms by simp
  from round_to_double_nonneg [OF this] show ?thesis
    unfolding round_to_double_minus by (cases "round_to_double z") auto
qed

lemma double_of_int:
  assumes "\<bar>n\<bar> \<le> 2 ^ 53"
  shows "double (of_int n)"
proof (cases "\<bar>n\<bar> < 2 ^ 53")
  case True
  have "(of_int \<bar>n\<bar> :: real) < of_int (2 ^ 53)" using True by (simp only: of_int_less_iff)
  hence "\<bar>of_int n :: real\<bar> < 2 powi 1024" by simp
  moreover have "(of_int n :: real) = of_int n * 2 powi (52 - 52)" by simp
  ultimately show ?thesis unfolding double_iff using True by (intro exI [of _ n] exI [of _ 52]) simp
next
  case False
  hence n: "n = 2 ^ 53 \<or> n = - (2 ^ 53)" using assms by linarith
  hence "(of_int n :: real) = of_int (n div 2) * 2 powi (53 - 52)" and "\<bar>n div 2\<bar> < 2 ^ 53"
    and "\<bar>of_int n :: real\<bar> < 2 powi 1024"
    by auto
  thus ?thesis unfolding double_iff by (intro exI [of _ "n div 2"] exI [of _ 53]) simp
qed

lemma double_of_nat:
  assumes "n \<le> 2 ^ 53"
  shows "double (real n)"
proof -
  have "\<bar>int n\<bar> \<le> 2 ^ 53" using assms by (simp add: of_nat_le_iff [of n "2 ^ 53", where ?'a = int, symmetric] del: of_nat_le_iff)
  from double_of_int [OF this] show ?thesis by simp
qed

lemma round_to_double_overflow:
  assumes "2 powi 1024 \<le> \<bar>x\<bar>"
  shows "round_to_double x = (if 0 < x then PosInf else NegInf)"
proof -
  have x0: "x \<noteq> 0" using assms two_powi_pos [of 1024] by auto
  have "\<bar>x\<bar> < 2 powi (expo x + 1)" using expo_bounds [OF x0] by simp
  hence "(2::real) powi 1024 < 2 powi (expo x + 1)" using assms by linarith
  hence e: "1024 \<le> expo x" by (simp only: two_powi_less_iff, simp?)
  hence m: "max (expo x) (- 1022) = expo x" by simp
  define q where "q = (2::real) powi (expo x - 52)"
  have q: "0 < q" unfolding q_def by (rule two_powi_pos)
  have pq: "2 powi expo x = 2 ^ 52 * q"
    using two_powi_add [of 52 "expo x - 52"] by (simp add: q_def)
  have "2 ^ 52 * q \<le> \<bar>x\<bar>" using expo_bounds [OF x0] by (simp add: pq)
  hence "of_int (2 ^ 52) \<le> \<bar>x / q\<bar>" using q by (simp add: field_simps abs_mult)
  hence "of_int (2 ^ 52) \<le> x / q \<or> x / q \<le> of_int (- (2 ^ 52))" by (simp only: of_int_minus, linarith?)
  hence "round_even (of_int (2 ^ 52)) \<le> round_even (x / q) \<or> round_even (x / q) \<le> round_even (of_int (- (2 ^ 52)))"
    using round_even_mono by blast
  hence "2 ^ 52 \<le> \<bar>round_even (x / q)\<bar>" by (simp only: round_even_int, linarith?)
  hence "(of_int (2 ^ 52) :: real) \<le> of_int \<bar>round_even (x / q)\<bar>" by (simp only: of_int_le_iff)
  hence "2 ^ 52 * q \<le> \<bar>of_int (round_even (x / q)) * q\<bar>"
    using q by (simp add: abs_mult)
  moreover have "(2::real) powi 1024 \<le> 2 powi expo x" using e by (simp only: two_powi_le_iff)
  ultimately have "2 powi 1024 \<le> \<bar>of_int (round_even (x / q)) * q\<bar>" by (simp only: pq [symmetric], linarith?)
  thus ?thesis unfolding round_to_double_def Let_def m q_def [symmetric] by simp
qed

lemma round_to_double_int:
  assumes "\<bar>n\<bar> \<le> 2 ^ 53"
  shows "round_to_double (of_int n) = Fin (of_int n)"
  using double_of_int [OF assms] by (simp add: double_def)

lemma round_to_double_numeral:
  assumes "(numeral n :: int) \<le> 2 ^ 53"
  shows "round_to_double (numeral n) = Fin (numeral n)"
  using round_to_double_int [of "numeral n"] assms by simp

lemma round_to_double_neg_numeral:
  assumes "(numeral n :: int) \<le> 2 ^ 53"
  shows "round_to_double (- numeral n) = Fin (- numeral n)"
  using round_to_double_int [of "- numeral n"] assms by simp

lemma round_to_double_1: "round_to_double 1 = Fin 1"
  using round_to_double_int [of 1] by simp

lemma round_to_double_nat:
  assumes "n \<le> 2 ^ 53"
  shows "round_to_double (real n) = Fin (real n)"
  using double_of_nat [OF assms] by (simp add: double_def)

lemma double_numeral:
  assumes "(numeral n :: int) \<le> 2 ^ 53"
  shows "double (numeral n)"
  using round_to_double_numeral [OF assms] by (simp add: double_def)

lemma double_0: "double 0"
  by (simp add: double_def round_to_double_0)

lemmas round_int = round_to_double_0 round_to_double_1 round_to_double_numeral round_to_double_neg_numeral

lemma round_even_error: "\<bar>of_int (round_even r) - r\<bar> \<le> 1 / 2"
proof -
  have "of_int \<lfloor>r\<rfloor> \<le> r" and "r < of_int \<lfloor>r\<rfloor> + 1" by linarith+
  thus ?thesis unfolding round_even_def Let_def by (auto simp add: abs_le_iff)
qed

lemma round_to_double_error:
  assumes "round_to_double x = Fin y"
  shows "\<bar>y - x\<bar> \<le> 2 powi (max (expo x) (- 1022) - 53)"
proof -
  define e where "e = max (expo x) (- 1022)"
  define q where "q = (2::real) powi (e - 52)"
  have q: "0 < q" unfolding q_def by (rule two_powi_pos)
  have y: "y = of_int (round_even (x / q)) * q"
    using assms unfolding round_to_double_def Let_def e_def [symmetric] q_def [symmetric]
    by (auto split: if_splits)
  have "y - x = (of_int (round_even (x / q)) - x / q) * q"
    using q by (simp add: y algebra_simps)
  hence "\<bar>y - x\<bar> = \<bar>of_int (round_even (x / q)) - x / q\<bar> * q"
    using q by (simp add: abs_mult)
  also have "\<dots> \<le> 1 / 2 * q"
    using round_even_error [of "x / q"] q by (intro mult_right_mono) simp_all
  also have "\<dots> = 2 powi (e - 53)"
  proof -
    have eq: "e - 52 = 1 + (e - 53)" by simp
    show ?thesis unfolding q_def by (subst eq, subst two_powi_add, simp)
  qed
  finally show ?thesis unfolding e_def .
qed

lemma round_to_double_rel_error:
  assumes "round_to_double x = Fin y" and "2 powi (- 1022) \<le> \<bar>x\<bar>"
  shows "\<bar>y - x\<bar> \<le> \<bar>x\<bar> * 2 powi (- 53)"
proof -
  have x0: "x \<noteq> 0" using assms(2) two_powi_pos [of "- 1022"] by auto
  have "(2::real) powi (- 1022) < 2 powi (expo x + 1)"
    using expo_bounds [OF x0] assms(2) by linarith
  hence "- 1022 \<le> expo x" by (simp only: two_powi_less_iff, simp?)
  hence m: "max (expo x) (- 1022) = expo x" by simp
  have eq: "expo x - 53 = expo x + (- 53)" by simp
  have "\<bar>y - x\<bar> \<le> 2 powi (expo x - 53)"
    using round_to_double_error [OF assms(1)] unfolding m .
  also have "\<dots> = 2 powi expo x * 2 powi (- 53)"
    by (subst eq, rule two_powi_add)
  also have "\<dots> \<le> \<bar>x\<bar> * 2 powi (- 53)"
    using expo_bounds [OF x0] by (intro mult_right_mono) simp_all
  finally show ?thesis .
qed

lemma round_to_double_finite:
  assumes "\<bar>x\<bar> \<le> c" and "double c"
  shows "\<exists>y. round_to_double x = Fin y \<and> \<bar>y\<bar> \<le> c"
proof (cases "x = 0")
  case True
  thus ?thesis using assms(1) by (simp add: round_to_double_0)
next
  case x0: False
  define e where "e = max (expo x) (- 1022)"
  define q where "q = (2::real) powi (e - 52)"
  have q: "0 < q" unfolding q_def by (rule two_powi_pos)
  have c0: "0 \<le> c" using assms(1) by linarith
  from assms(2) obtain m e' where c: "c = of_int m * 2 powi (e' - 52)" and m: "\<bar>m\<bar> < 2 ^ 53"
    and e': "- 1022 \<le> e'" and small: "\<bar>c\<bar> < 2 powi 1024"
    unfolding double_iff by blast
  have "\<exists>k::int. c = of_int k * q"
  proof (cases "e \<le> e'")
    case True
    have "(2::real) powi (e' - 52) = 2 powi (e' - e) * 2 powi (e - 52)"
      using two_powi_add [of "e' - e" "e - 52"] by simp
    also have "(2::real) powi (e' - e) = of_int (2 ^ nat (e' - e))"
      using True by (intro two_powi_nat) simp
    finally have "c = of_int (m * 2 ^ nat (e' - e)) * q" unfolding c q_def by simp
    thus ?thesis ..
  next
    case False
    hence lt: "e' < e" by simp
    hence ex: "e = expo x" using e' by (simp add: e_def)
    have "2 powi e \<le> \<bar>x\<bar>" using expo_bounds [OF x0] ex by simp
    hence "2 powi e \<le> c" using assms(1) by linarith
    moreover have "c < 2 powi (e' + 1)"
    proof -
      have "\<bar>c\<bar> = of_int \<bar>m\<bar> * 2 powi (e' - 52)" by (simp add: c abs_mult)
      hence "c = of_int \<bar>m\<bar> * 2 powi (e' - 52)" using c0 by simp
      also have "\<dots> < 2 ^ 53 * 2 powi (e' - 52)"
      proof -
        have "(of_int \<bar>m\<bar> :: real) < of_int (2 ^ 53)" using m by (simp only: of_int_less_iff)
        thus ?thesis by simp
      qed
      finally show ?thesis by (simp only: two_powi_53)
    qed
    ultimately have "(2::real) powi e < 2 powi (e' + 1)" by linarith
    hence "e < e' + 1" by (simp only: two_powi_less_iff)
    thus ?thesis using lt by simp
  qed
  then obtain k :: int where k: "c = of_int k * q" ..
  have "x / q \<le> of_int k" and "of_int (- k) \<le> x / q"
    using assms(1) q by (simp_all add: k field_simps) 
  hence "round_even (x / q) \<le> round_even (of_int k)" and "round_even (of_int (- k)) \<le> round_even (x / q)"
    by (simp_all only: round_even_mono)
  hence "\<bar>round_even (x / q)\<bar> \<le> k" by (simp only: round_even_int, linarith?)
  hence "(of_int \<bar>round_even (x / q)\<bar> :: real) \<le> of_int k" by (simp only: of_int_le_iff)
  hence b: "\<bar>of_int (round_even (x / q)) * q\<bar> \<le> c"
    using q by (simp add: k abs_mult)
  hence "\<not> 2 powi 1024 \<le> \<bar>of_int (round_even (x / q)) * q\<bar>" using small c0 by linarith
  thus ?thesis
    unfolding round_to_double_def Let_def e_def [symmetric] q_def [symmetric] using b by simp
qed



section \<open>Reference prices\<close>

lemma round_to_double_cases:
  obtains (PosInf) "round_to_double x = PosInf"
  | (NegInf) "round_to_double x = NegInf"
  | (Fin) y where "round_to_double x = Fin y" and "double y"
  using round_to_double_not_NaN [of x] round_to_double_double [of x]
  by (cases "round_to_double x") auto

lemma jadd_zero_round: "jadd (Fin 0) (round_to_double x) = round_to_double x"
  by (cases x rule: round_to_double_cases) (simp_all add: double_def)

lemma jdiv_one_round: "jdiv (round_to_double x) (Fin 1) = round_to_double x"
  by (cases x rule: round_to_double_cases) (simp_all add: double_def)

lemma getMeanPrice_one:
  "getMeanPrice summary (Suc 0) =
     (case summary of
        None \<Rightarrow> Fin 0
      | Some [] \<Rightarrow> Fin 0
      | Some (x # xs) \<Rightarrow> JSON_number (pricePerUnit x))"
  by (auto simp: getMeanPrice_def min_def JSON_number_def jadd_zero_round jdiv_one_round
      split: option.splits list.splits)

lemma buyPrice_cases:
  "buyPrice p =
     (case buy_summary p of
        None \<Rightarrow> Fin 0
      | Some [] \<Rightarrow> Fin 0
      | Some (x # xs) \<Rightarrow> JSON_number (pricePerUnit x))"
  by (simp add: buyPrice_def getMeanPrice_one)

lemma sellPrice_cases:
  "sellPrice p =
     (case sell_summary p of
        None \<Rightarrow> Fin 0
      | Some [] \<Rightarrow> Fin 0
      | Some (x # xs) \<Rightarrow> JSON_number (pricePerUnit x))"
  by (simp add: sellPrice_def getMeanPrice_one)

lemma buyPrice_not_NaN: "buyPrice p \<noteq> NaN"
  by (simp add: buyPrice_cases JSON_number_def round_to_double_not_NaN
      split: option.splits list.splits)

lemma sellPrice_not_NaN: "sellPrice p \<noteq> NaN"
  by (simp add: sellPrice_cases JSON_number_def round_to_double_not_NaN
      split: option.splits list.splits)


lemma sellPrice_double: "sellPrice p = Fin l \<Longrightarrow> double l"
  by (auto simp: sellPrice_cases JSON_number_def double_0 round_to_double_double
      split: option.splits list.splits)

lemma jle_Fin [simp]: "jle (Fin x) (Fin y) \<longleftrightarrow> x \<le> y"
  by (auto simp: jle_def)

lemma jgt_Fin [simp]: "jgt (Fin x) (Fin y) \<longleftrightarrow> y < x"
  by (simp add: jgt_def)

lemma not_jle_zero: "a \<noteq> NaN \<Longrightarrow> \<not> jle a (Fin 0) \<longleftrightarrow> jgt a (Fin 0)"
  by (cases a) (auto simp: jle_def jgt_def)

lemma flip_card_Some:
  "flip_card taxRate p = Some c \<Longrightarrow>
     c = \<lparr>card_id = product_id p, title = replace_underscores (product_id p),
          buy = sellPrice p, sell = buyPrice p,
          instabuy = instabuyHourly p, instasell = instasellHourly p,
          margin = product_margin taxRate p,
          coinsPerHour = jmul (product_margin taxRate p) (Math_min (instabuyHourly p) (instasellHourly p)),
          href = ''https://skyblock.bz/product/'' @ product_id p,
          img = ''https://sky.coflnet.com/static/icon/'' @ product_id p,
          raw = quick_status p\<rparr>"
  by (auto simp: flip_card_def Let_def split: if_splits)

lemma flip_card_iff:
  "flip_card taxRate p \<noteq> None \<longleftrightarrow>
     jgt (buyPrice p) (Fin 0) \<and> jgt (sellPrice p) (Fin 0) \<and>
     jgt (product_margin taxRate p) (Fin 0) \<and>
     jgt (Math_min (instabuyHourly p) (instasellHourly p)) (Fin 10)"
  by (auto simp: flip_card_def Let_def not_jle_zero [OF buyPrice_not_NaN, symmetric]
      not_jle_zero [OF sellPrice_not_NaN, symmetric])

section \<open>The hourly rates\<close>

lemma Math_round_nonneg:
  assumes "a = PosInf \<or> (\<exists>y. a = Fin y \<and> 0 \<le> y)"
  shows "Math_round a = PosInf \<or> (\<exists>y. Math_round a = Fin y \<and> 0 \<le> y)"
  using assms by auto

lemma jdiv_nonneg:
  assumes "a = PosInf \<or> (\<exists>y. a = Fin y \<and> 0 \<le> y)" and "0 < d"
  shows "jdiv a (Fin d) = PosInf \<or> (\<exists>y. jdiv a (Fin d) = Fin y \<and> 0 \<le> y)"
proof -
  have *: "round_to_double (y / d) = PosInf \<or> (\<exists>z. round_to_double (y / d) = Fin z \<and> 0 \<le> z)"
    if "0 \<le> y" for y
    using that assms(2) by (intro round_to_double_nonneg) simp
  from assms(1) show ?thesis
  proof
    assume "a = PosInf"
    thus ?thesis using assms(2) by simp
  next
    assume "\<exists>y. a = Fin y \<and> 0 \<le> y"
    then obtain y where "a = Fin y" and "0 \<le> y" by blast
    thus ?thesis using * [of y] assms(2) by simp
  qed
qed

lemma rate_nonneg:
  "Math_round (jdiv (volume (Some n)) (Fin 168)) = PosInf
   \<or> (\<exists>y. Math_round (jdiv (volume (Some n)) (Fin 168)) = Fin y \<and> 0 \<le> y)"
proof -
  have "volume (Some n) = PosInf \<or> (\<exists>y. volume (Some n) = Fin y \<and> 0 \<le> y)"
    unfolding volume_def JSON_number_def by (simp add: round_to_double_nonneg)
  hence "jdiv (volume (Some n)) (Fin 168) = PosInf
      \<or> (\<exists>y. jdiv (volume (Some n)) (Fin 168) = Fin y \<and> 0 \<le> y)"
    by (rule jdiv_nonneg) simp
  thus ?thesis by (rule Math_round_nonneg)
qed

lemma rate_zero: "Math_round (jdiv (volume (Some 0)) (Fin 168)) = Fin 0"
  by (simp add: volume_def JSON_number_def round_to_double_0)

lemma rate_missing: "Math_round (jdiv (volume None) (Fin 168)) = NaN"
  by (simp add: volume_def)

lemma double_half_integer:
  assumes "\<bar>k\<bar> < 2 ^ 53"
  shows "double (of_int k / 2)"
proof -
  have "(of_int k / 2 :: real) = of_int k * 2 powi (51 - 52)" by simp
  moreover have "\<bar>of_int k / 2 :: real\<bar> < 2 powi 1024"
  proof -
    have "(of_int \<bar>k\<bar> :: real) < of_int (2 ^ 53)" using assms by (simp only: of_int_less_iff)
    thus ?thesis by simp
  qed
  ultimately show ?thesis unfolding double_iff using assms
    by (intro exI [of _ k] exI [of _ 51]) simp
qed

lemma rate_exact:
  assumes "n < 2 ^ 53"
  shows "Math_round (jdiv (volume (Some n)) (Fin 168)) = Fin (of_int \<lfloor>real n / 168 + 1 / 2\<rfloor>)"
proof -
  define x where "x = real n / 168"
  define N where "N = (n + 84) div 168"
  define r where "r = (n + 84) mod 168"
  have n: "n + 84 = 168 * N + r" and r: "r < 168" by (simp_all add: N_def r_def)
  have "real (n + 84) = real (168 * N + r)" using n by simp
  hence x: "x + 1 / 2 = real N + real r / 168" by (simp add: x_def)
  have fl: "\<lfloor>x + 1 / 2\<rfloor> = int N"
    unfolding x using r by (intro floor_unique) simp_all
  have v: "volume (Some n) = Fin (real n)"
    using assms by (simp add: volume_def JSON_number_def round_to_double_nat)
  have d53: "double (2 ^ 53)" using double_of_int [of "2 ^ 53"] by simp
  have nr: "real n < 2 ^ 53" using assms by (metis of_nat_less_iff of_nat_numeral of_nat_power)
  have "\<bar>x\<bar> \<le> 2 ^ 53" using nr by (simp add: x_def)
  from round_to_double_finite [OF this d53] obtain y where y: "round_to_double x = Fin y"
    by blast
  have "\<lfloor>y + 1 / 2\<rfloor> = int N" if n0: "0 < n"
  proof (cases "r = 0")
    case True
    hence xe: "x = of_int (2 * int N - 1) / 2" using x by simp
    have "x < 2 ^ 53" using nr by (simp add: x_def)
    hence "real_of_int (2 * int N - 1) < 2 * 2 ^ 53" unfolding xe by simp
    moreover have "0 \<le> x" by (simp add: x_def)
    hence "0 \<le> real_of_int (2 * int N - 1)" unfolding xe by simp
    ultimately have "\<bar>2 * int N - 1\<bar> < 2 ^ 53 \<or> 2 ^ 53 \<le> 2 * int N - 1" by linarith
    moreover have "\<not> 2 ^ 53 \<le> 2 * int N - 1"
    proof
      assume "2 ^ 53 \<le> 2 * int N - 1"
      hence "(2 ^ 53 :: real) \<le> real_of_int (2 * int N - 1)"
        by (metis of_int_le_iff of_int_numeral of_int_power)
      hence "2 ^ 53 \<le> 2 * x" unfolding xe by simp
      thus False using nr by (simp add: x_def)
    qed
    ultimately have "double x" unfolding xe by (intro double_half_integer) simp
    hence "y = x" using y by (simp add: double_def)
    thus ?thesis using fl by simp
  next
    case False
    hence r1: "1 \<le> real r" and r2: "real r \<le> 167" using r by simp_all
    have x1: "1 / 168 \<le> x" using n0 by (simp add: x_def)
    have "(2::real) powi (- 1022) \<le> 2 powi (- 8)" by (simp only: two_powi_le_iff, simp?)
    also have "\<dots> \<le> 1 / 168" by simp
    finally have "2 powi (- 1022) \<le> \<bar>x\<bar>" using x1 by simp
    from round_to_double_rel_error [OF y this] have "\<bar>y - x\<bar> \<le> x * 2 powi (- 53)"
      using x1 by simp
    also have "\<dots> < 2 ^ 53 / 168 * 2 powi (- 53)"
      using nr by (intro mult_strict_right_mono) (simp_all add: x_def)
    also have "\<dots> = 1 / 168" by simp
    finally have e: "\<bar>y - x\<bar> < 1 / 168" .
    have e1: "y - x < 1 / 168" and e2: "x - y < 1 / 168" using e by linarith+
    have r3: "1 / 168 \<le> real r / 168" and r4: "real r / 168 \<le> 167 / 168"
      using r1 r2 by simp_all
    have "real N < y + 1 / 2" and "y + 1 / 2 < real N + 1"
      using e1 e2 x r3 r4 by linarith+
    thus ?thesis by (intro floor_unique) simp_all
  qed
  moreover have "\<lfloor>y + 1 / 2\<rfloor> = int N" if "n = 0"
  proof -
    have "x = 0" using that by (simp add: x_def)
    hence "y = 0" using y by (simp add: round_to_double_0)
    thus ?thesis using that by (simp add: N_def)
  qed
  ultimately have "\<lfloor>y + 1 / 2\<rfloor> = int N" by (cases "n = 0") simp_all
  thus ?thesis using fl by (simp add: v y x_def [symmetric])
qed

section \<open>The error of the margin\<close>


lemma jsub_Fin: "jsub (Fin x) (Fin y) = round_to_double (x - y)"
  by (simp add: jsub_def)


section \<open>Evaluating the examples\<close>

lemmas round_defs = round_to_double_def expo_def round_even_def bits.simps Let_def

lemmas text_defs =
  StringToNumber_def trim_def is_space_def non_decimal_def scan_decimal_def
  scan_unsigned_def scan_exponent_def is_digit_def digits_val_def parseFloat_def
  toLowerCase_def parseNum_text_def char_of_def bit_0

lemma example_roundings:
  "round_to_double (237 / 20) = Fin (6670956948042547 / 562949953421312)"
  "round_to_double (11 / 10) = Fin (2476979795053773 / 2251799813685248)"
  "round_to_double (1 / 80) = Fin (3602879701896397 / 288230376151711744)"
  "round_to_double (284627496449815347 / 288230376151711744) = Fin (4447304632028365 / 4503599627370496)"
  "round_to_double (111182615800709125 / 1125899906842624) = Fin (395 / 4)"
  "round_to_double (395 / 4) = Fin (395 / 4)"
  "round_to_double (35 / 4) = Fin (35 / 4)"
  "round_to_double (9 / 800) = Fin (3242591731706757 / 288230376151711744)"
  "round_to_double (284987784420004987 / 288230376151711744) = Fin (2226467065781289 / 2251799813685248)"
  "round_to_double (55661676644532225 / 562949953421312) = Fin (791 / 8)"
  "round_to_double (71 / 8) = Fin (71 / 8)"
  "round_to_double (7 / 10) = Fin (3152519739159347 / 4503599627370496)"
  "round_to_double (1351079888211149 / 4503599627370496) = Fin (1351079888211149 / 4503599627370496)"
  "round_to_double (6755399441055745 / 2251799813685248) = Fin (6755399441055745 / 2251799813685248)"
  "round_to_double (1 / 2251799813685248) = Fin (1 / 2251799813685248)"
  "round_to_double (13341913896085095 / 1125899906842624) = Fin (1667739237010637 / 140737488355328)"
  "round_to_double (1 / 562949953421312) = Fin (1 / 562949953421312)"
  "round_to_double (2476979795053773 / 225179981368524800) = Fin (6341068275337659 / 576460752303423488)"
  "round_to_double (570119684028085829 / 576460752303423488) = Fin (8908120062938841 / 9007199254740992)"
  "round_to_double (222703001573471025 / 2251799813685248) = Fin (3479734399585485 / 35184372088832)"
  "round_to_double (313140911590605 / 35184372088832) = Fin (313140911590605 / 35184372088832)"
  "round_to_double (111182615800709125 / 562949953421312) = Fin (395 / 2)"
  "round_to_double (95 / 2) = Fin (95 / 2)"
  "round_to_double (3 / 140737488355328) = Fin (3 / 140737488355328)"
  "round_to_double (3 / 562949953421312) = Fin (3 / 562949953421312)"
  "round_to_double (213 / 2) = Fin (213 / 2)"
  by (simp_all add: round_defs)

lemmas example_defs =
  example_product_def no_sell_orders_product_def idle_product_def busy_product_def
  thin_product_def tight_product_def unreported_product_def
  buyPrice_cases sellPrice_cases product_margin_def taxMultiplier_def jsub_Fin
  instabuyHourly_def instasellHourly_def volume_def JSON_number_def Math_min_def jgt_def jle_def
  round_int example_roundings

section \<open>The margin\<close>


lemma jmul_one:
  assumes "double h"
  shows "jmul (Fin h) (Fin 1) = Fin h"
  using assms by (simp add: double_def)



section \<open>The cards that are emitted\<close>

text \<open>
  C2, as the claim states it, fails twice. A product with an empty sell summary has a
  positive margin and an hourly rate of 12 on both sides, and no card is emitted for it,
  because its low price is 0. And for a product whose weekly buy volume is 0 and whose
  weekly sell volume is missing, the smaller of the two hourly rates is NaN, not 0.
\<close>

theorem emitted_iff_counterexample:
  "jgt (product_margin (Fin (5 / 4)) no_sell_orders_product) (Fin 0)
   \<and> jgt (Math_min (instabuyHourly no_sell_orders_product)
                    (instasellHourly no_sell_orders_product)) (Fin 10)
   \<and> flip_card (Fin (5 / 4)) no_sell_orders_product = None
   \<and> buyMovingWeek (quick_status unreported_product) = Some 0
   \<and> Math_min (instabuyHourly unreported_product) (instasellHourly unreported_product) = NaN"
  by (simp add: flip_card_def example_defs)

lemma Math_min_zero:
  assumes "a = Fin 0 \<or> b = Fin 0"
    and "a = PosInf \<or> (\<exists>y. a = Fin y \<and> 0 \<le> y)"
    and "b = PosInf \<or> (\<exists>y. b = Fin y \<and> 0 \<le> y)"
  shows "Math_min a b = Fin 0"
  using assms by (auto simp: Math_min_def)

lemma Math_min_low:
  assumes "a \<in> {NaN, Fin 0} \<or> b \<in> {NaN, Fin 0}"
  shows "\<not> jgt (Math_min a b) (Fin 10)"
  using assms by (cases a; cases b) (auto simp: Math_min_def jgt_def split: if_splits)

text \<open>
  C2, amended. A card is emitted for a product exactly when both reference prices are
  positive, the margin is positive and the smaller of the two hourly rates exceeds 10;
  the margin is the one computed in double arithmetic. The hourly rate of a weekly
  volume below \<open>2^53\<close> is the volume divided by 168 and rounded to the nearest integer.
  When both weekly volumes are present and one of them is 0, the smaller rate is 0; and
  no card is emitted for a product with a weekly volume that is 0 or missing.
\<close>

theorem emitted_iff:
  "(flip_card taxRate p \<noteq> None \<longleftrightarrow>
      jgt (buyPrice p) (Fin 0) \<and> jgt (sellPrice p) (Fin 0)
      \<and> jgt (product_margin taxRate p) (Fin 0)
      \<and> jgt (Math_min (instabuyHourly p) (instasellHourly p)) (Fin 10))
   \<and> (\<forall>v. buyMovingWeek (quick_status p) = Some v \<and> v < 2 ^ 53 \<longrightarrow>
          instabuyHourly p = Fin (of_int \<lfloor>real v / 168 + 1 / 2\<rfloor>))
   \<and> (\<forall>v. sellMovingWeek (quick_status p) = Some v \<and> v < 2 ^ 53 \<longrightarrow>
          instasellHourly p = Fin (of_int \<lfloor>real v / 168 + 1 / 2\<rfloor>))
   \<and> (\<forall>b s. buyMovingWeek (quick_status p) = Some b \<and> sellMovingWeek (quick_status p) = Some s
          \<and> (b = 0 \<or> s = 0) \<longrightarrow>
          Math_min (instabuyHourly p) (instasellHourly p) = Fin 0)
   \<and> (buyMovingWeek (quick_status p) \<in> {None, Some 0}
        \<or> sellMovingWeek (quick_status p) \<in> {None, Some 0} \<longrightarrow>
          flip_card taxRate p = None)"
proof -
  have 2: "instabuyHourly p = Fin (of_int \<lfloor>real v / 168 + 1 / 2\<rfloor>)"
    if "buyMovingWeek (quick_status p) = Some v \<and> v < 2 ^ 53" for v
    using that by (simp add: instabuyHourly_def rate_exact)
  have 3: "instasellHourly p = Fin (of_int \<lfloor>real v / 168 + 1 / 2\<rfloor>)"
    if "sellMovingWeek (quick_status p) = Some v \<and> v < 2 ^ 53" for v
    using that by (simp add: instasellHourly_def rate_exact)
  have 4: "Math_min (instabuyHourly p) (instasellHourly p) = Fin 0"
    if v: "buyMovingWeek (quick_status p) = Some b \<and> sellMovingWeek (quick_status p) = Some s
      \<and> (b = 0 \<or> s = 0)" for b s
  proof (rule Math_min_zero)
    show "instabuyHourly p = Fin 0 \<or> instasellHourly p = Fin 0"
      using v rate_zero by (auto simp: instabuyHourly_def instasellHourly_def)
    show "instabuyHourly p = PosInf \<or> (\<exists>y. instabuyHourly p = Fin y \<and> 0 \<le> y)"
      using v rate_nonneg [of b] by (simp add: instabuyHourly_def)
    show "instasellHourly p = PosInf \<or> (\<exists>y. instasellHourly p = Fin y \<and> 0 \<le> y)"
      using v rate_nonneg [of s] by (simp add: instasellHourly_def)
  qed
  have 5: "flip_card taxRate p = None"
    if "buyMovingWeek (quick_status p) \<in> {None, Some 0}
        \<or> sellMovingWeek (quick_status p) \<in> {None, Some 0}"
  proof -
    from that have "instabuyHourly p \<in> {NaN, Fin 0} \<or> instasellHourly p \<in> {NaN, Fin 0}"
      using rate_missing rate_zero by (auto simp: instabuyHourly_def instasellHourly_def)
    hence "\<not> jgt (Math_min (instabuyHourly p) (instasellHourly p)) (Fin 10)"
      by (rule Math_min_low)
    thus ?thesis using flip_card_iff [of taxRate p] by blast
  qed
  from flip_card_iff [of taxRate p] 2 3 4 5 show ?thesis by blast
qed

theorem emitted_iff_witness:
  "flip_card (Fin (9 / 8)) example_product \<noteq> None
   \<and> instabuyHourly example_product = Fin 12
   \<and> instasellHourly example_product = Fin 12
   \<and> Math_min (instabuyHourly idle_product) (instasellHourly idle_product) = Fin 0
   \<and> flip_card (Fin (9 / 8)) idle_product = None
   \<and> flip_card (Fin (9 / 8)) no_sell_orders_product = None
   \<and> product_margin (Fin (5 / 4)) tight_product = Fin (1 / 2 ^ 49)
   \<and> flip_card (Fin (5 / 4)) tight_product \<noteq> None"
proof -
  have e: "jgt (buyPrice example_product) (Fin 0) \<and> jgt (sellPrice example_product) (Fin 0)
      \<and> jgt (product_margin (Fin (9 / 8)) example_product) (Fin 0)
      \<and> jgt (Math_min (instabuyHourly example_product) (instasellHourly example_product)) (Fin 10)"
    by (simp add: example_defs)
  have 1: "flip_card (Fin (9 / 8)) example_product \<noteq> None"
    using emitted_iff [of "Fin (9 / 8)" example_product, THEN conjunct1] e by blast
  have v: "buyMovingWeek (quick_status example_product) = Some 2016 \<and> (2016::nat) < 2 ^ 53"
    "sellMovingWeek (quick_status example_product) = Some 2016 \<and> (2016::nat) < 2 ^ 53"
    by (simp_all add: example_product_def)
  have 2: "instabuyHourly example_product = Fin 12"
    using emitted_iff [of "Fin (9 / 8)" example_product, THEN conjunct2, THEN conjunct1,
        rule_format, OF v(1)]
    by simp
  have 3: "instasellHourly example_product = Fin 12"
    using emitted_iff [of "Fin (9 / 8)" example_product, THEN conjunct2, THEN conjunct2,
        THEN conjunct1, rule_format, OF v(2)]
    by simp
  have i: "buyMovingWeek (quick_status idle_product) = Some 0
      \<and> sellMovingWeek (quick_status idle_product) = Some 2016 \<and> ((0::nat) = 0 \<or> (2016::nat) = 0)"
    by (simp add: idle_product_def)
  have 4: "Math_min (instabuyHourly idle_product) (instasellHourly idle_product) = Fin 0"
    using emitted_iff [of "Fin (9 / 8)" idle_product, THEN conjunct2, THEN conjunct2,
        THEN conjunct2, THEN conjunct1, rule_format, OF i] .
  have 5: "flip_card (Fin (9 / 8)) idle_product = None"
    using emitted_iff [of "Fin (9 / 8)" idle_product, THEN conjunct2, THEN conjunct2,
        THEN conjunct2, THEN conjunct2]
    by (simp add: idle_product_def)
  have n: "\<not> jgt (sellPrice no_sell_orders_product) (Fin 0)"
    by (simp add: example_defs)
  have 6: "flip_card (Fin (9 / 8)) no_sell_orders_product = None"
    using emitted_iff [of "Fin (9 / 8)" no_sell_orders_product, THEN conjunct1] n by blast
  have 7: "product_margin (Fin (5 / 4)) tight_product = Fin (1 / 2 ^ 49)"
    by (simp add: example_defs)
  have t: "jgt (buyPrice tight_product) (Fin 0) \<and> jgt (sellPrice tight_product) (Fin 0)
      \<and> jgt (product_margin (Fin (5 / 4)) tight_product) (Fin 0)
      \<and> jgt (Math_min (instabuyHourly tight_product) (instasellHourly tight_product)) (Fin 10)"
    unfolding 7 by (simp add: example_defs)
  have 8: "flip_card (Fin (5 / 4)) tight_product \<noteq> None"
    using emitted_iff [of "Fin (5 / 4)" tight_product, THEN conjunct1] t by blast
  from 1 2 3 4 5 6 7 8 show ?thesis by (intro conjI)
qed

section \<open>The cache\<close>

lemma getBazaarData_hit:
  "cache (Flips t) = Some v \<Longrightarrow> getBazaarData cache upstream t = (Inr v, cache)"
  by (simp add: getBazaarData_def)

lemma getBazaarData_fetch_failed:
  "cache (Flips t) = None \<Longrightarrow> getBazaarData cache (Inl e) t = (Inl e, cache)"
  by (simp add: getBazaarData_def)

lemma getBazaarData_flag_false:
  "cache (Flips t) = None \<Longrightarrow> \<not> success r \<Longrightarrow>
   getBazaarData cache (Inr r) t = (Inl (Error ''Hypixel API failed''), cache)"
  by (simp add: getBazaarData_def)

lemma getBazaarData_derived:
  "cache (Flips t) = None \<Longrightarrow> success r \<Longrightarrow>
   getBazaarData cache (Inr r) t =
     (Inr (topCards t (products r)), cache(Flips t \<mapsto> topCards t (products r)))"
  by (simp add: getBazaarData_def Let_def)

lemma getBazaarData_cases:
  obtains (hit) v where "cache (Flips t) = Some v"
      "getBazaarData cache upstream t = (Inr v, cache)"
  | (failed) e where "cache (Flips t) = None"
      "getBazaarData cache upstream t = (Inl e, cache)"
  | (derived) r :: api_response where "cache (Flips t) = None"
      "getBazaarData cache upstream t =
         (Inr (topCards t (products r)), cache(Flips t \<mapsto> topCards t (products r)))"
proof (cases "cache (Flips t)")
  case (Some v)
  then show ?thesis using hit getBazaarData_hit by blast
next
  case None
  show ?thesis
  proof (cases upstream)
    case (Inl e)
    with None show ?thesis using failed getBazaarData_fetch_failed by blast
  next
    case (Inr r)
    with None show ?thesis
      using failed derived getBazaarData_flag_false getBazaarData_derived
      by (cases "success r") blast+
  qed
qed

lemma getBazaarData_other_keys:
  "k \<noteq> Flips t \<Longrightarrow> snd (getBazaarData cache upstream t) k = cache k"
  by (cases rule: getBazaarData_cases [of cache t upstream]) simp_all

lemma reachable_derived:
  "reachable c \<Longrightarrow> c (Flips t) = Some v \<Longrightarrow> \<exists>ps. v = topCards t ps"
proof (induction arbitrary: t v rule: reachable.induct)
  case start
  then show ?case by simp
next
  case (call c upstream taxRate)
  show ?case
  proof (cases rule: getBazaarData_cases [of c taxRate upstream])
    case (hit w)
    with call show ?thesis by simp
  next
    case (failed e)
    with call show ?thesis by simp
  next
    case (derived r)
    with call show ?thesis by (cases "t = taxRate") auto
  qed
next
  case (expire c k)
  then show ?case by (auto split: if_splits)
qed

lemma getBazaarData_result_derived:
  assumes "reachable c" and "getBazaarData c upstream t = (Inr v, c')"
  shows "\<exists>ps. v = topCards t ps"
proof (cases rule: getBazaarData_cases [of c t upstream])
  case (hit w)
  with assms reachable_derived show ?thesis by auto
next
  case (failed e)
  with assms show ?thesis by simp
next
  case (derived r)
  with assms show ?thesis by auto
qed

section \<open>Sorting with a comparison function\<close>

lemma sort_compare_cases:
  "sort_compare cmp a b = - 1 \<or> sort_compare cmp a b = 0 \<or> sort_compare cmp a b = 1"
  by (simp add: sort_compare_def)

lemma consistent_iff:
  "consistent cmp xs \<longleftrightarrow>
     (\<forall>a \<in> set xs.
        sort_compare cmp a a = 0 \<and>
        (\<forall>b \<in> set xs.
           (sort_compare cmp a b = 0 \<longrightarrow> sort_compare cmp b a = 0) \<and>
           (\<forall>c \<in> set xs.
              (sort_compare cmp a b = 0 \<and> sort_compare cmp b c = 0 \<longrightarrow> sort_compare cmp a c = 0) \<and>
              (sort_compare cmp a b < 0 \<and> sort_compare cmp b c < 0 \<longrightarrow> sort_compare cmp a c < 0) \<and>
              (sort_compare cmp a b > 0 \<and> sort_compare cmp b c > 0 \<longrightarrow> sort_compare cmp a c > 0))))"
  by (simp add: consistent_def list_all_iff)

lemma consistent_key:
  fixes k :: "'a \<Rightarrow> 'b::linorder"
  assumes lt: "\<And>a b. a \<in> set xs \<Longrightarrow> b \<in> set xs \<Longrightarrow> sort_compare cmp a b < 0 \<longleftrightarrow> k a < k b"
    and gt: "\<And>a b. a \<in> set xs \<Longrightarrow> b \<in> set xs \<Longrightarrow> sort_compare cmp a b > 0 \<longleftrightarrow> k b < k a"
  shows "consistent cmp xs"
proof -
  have eq: "sort_compare cmp a b = 0 \<longleftrightarrow> k a = k b" if "a \<in> set xs" "b \<in> set xs" for a b
    using lt [OF that] gt [OF that] sort_compare_cases [of cmp a b] by auto
  show ?thesis
    unfolding consistent_iff by (auto simp: lt gt eq)
qed

lemma insert_sorted_insort_key:
  fixes k :: "'a \<Rightarrow> 'b::linorder"
  assumes "\<And>y. y \<in> set ys \<Longrightarrow> sort_compare cmp x y > 0 \<longleftrightarrow> k y < k x"
  shows "insert_sorted cmp x ys = insort_key k x ys"
  using assms by (induction ys) (auto simp: not_le)

lemma insertion_sort_key:
  fixes k :: "'a \<Rightarrow> 'b::linorder"
  assumes "\<And>a b. a \<in> set xs \<Longrightarrow> b \<in> set xs \<Longrightarrow> sort_compare cmp a b > 0 \<longleftrightarrow> k b < k a"
  shows "foldr (insert_sorted cmp) xs [] = sort_key k xs"
  using assms
proof (induction xs)
  case Nil
  show ?case by simp
next
  case (Cons x xs)
  have "foldr (insert_sorted cmp) xs [] = sort_key k xs"
    using Cons by simp
  moreover have "insert_sorted cmp x (sort_key k xs) = insort_key k x (sort_key k xs)"
    by (rule insert_sorted_insort_key) (simp add: Cons.prems)
  ultimately show ?case by simp
qed

lemma array_sort_sort_key:
  fixes k :: "'a \<Rightarrow> 'b::linorder"
  assumes lt: "\<And>a b. a \<in> set xs \<Longrightarrow> b \<in> set xs \<Longrightarrow> sort_compare cmp a b < 0 \<longleftrightarrow> k a < k b"
    and gt: "\<And>a b. a \<in> set xs \<Longrightarrow> b \<in> set xs \<Longrightarrow> sort_compare cmp a b > 0 \<longleftrightarrow> k b < k a"
  shows "array_sort cmp xs = Some (sort_key k xs)"
proof -
  have "consistent cmp xs" using lt gt by (rule consistent_key)
  moreover have "foldr (insert_sorted cmp) xs [] = sort_key k xs"
    using gt by (rule insertion_sort_key)
  ultimately show ?thesis by (simp add: array_sort_def)
qed

lemma length_filter_mono:
  assumes "\<And>x. x \<in> set xs \<Longrightarrow> P x \<Longrightarrow> Q x"
  shows "length (filter P xs) \<le> length (filter Q xs)"
  using assms by (induction xs) auto

lemma length_filter_less:
  assumes "\<And>x. x \<in> set xs \<Longrightarrow> P x \<Longrightarrow> Q x" and "a \<in> set xs" and "Q a" and "\<not> P a"
  shows "length (filter P xs) < length (filter Q xs)"
  using assms
proof (induction xs)
  case Nil
  thus ?case by simp
next
  case (Cons x xs)
  have le: "length (filter P xs) \<le> length (filter Q xs)"
    using Cons.prems(1) by (intro length_filter_mono) simp
  show ?case
  proof (cases "a \<in> set xs")
    case True
    hence "length (filter P xs) < length (filter Q xs)"
      using Cons by simp
    thus ?thesis using Cons.prems(1) [of x] by auto
  next
    case False
    hence "x = a" using Cons.prems(2) by simp
    thus ?thesis using le Cons.prems(3,4) by simp
  qed
qed

text \<open>
  A consistent comparison orders the elements as their positions do: the position of an
  element is the number of elements that compare less.
\<close>

lemma consistent_position:
  assumes c: "consistent cmp xs" and a: "a \<in> set xs" and b: "b \<in> set xs"
  shows "sort_compare cmp a b < 0 \<longleftrightarrow> sort_position cmp xs a < sort_position cmp xs b"
    and "sort_compare cmp a b > 0 \<longleftrightarrow> sort_position cmp xs b < sort_position cmp xs a"
proof -
  let ?c = "sort_compare cmp" and ?p = "sort_position cmp xs"
  have refl: "?c x x = 0" if "x \<in> set xs" for x
    using c that unfolding consistent_iff by blast
  have sym: "?c y x = 0" if "x \<in> set xs" "y \<in> set xs" "?c x y = 0" for x y
    using c that unfolding consistent_iff by blast
  have tr0: "?c x z = 0" if "x \<in> set xs" "y \<in> set xs" "z \<in> set xs" "?c x y = 0" "?c y z = 0" for x y z
    using c that unfolding consistent_iff by blast
  have trl: "?c x z < 0" if "x \<in> set xs" "y \<in> set xs" "z \<in> set xs" "?c x y < 0" "?c y z < 0" for x y z
    using c that unfolding consistent_iff by blast
  have trg: "?c x z > 0" if "x \<in> set xs" "y \<in> set xs" "z \<in> set xs" "?c x y > 0" "?c y z > 0" for x y z
    using c that unfolding consistent_iff by blast
  have anti: "?c y x > 0" if "x \<in> set xs" "y \<in> set xs" "?c x y < 0" for x y
  proof -
    have "?c y x \<noteq> 0" using sym [OF that(2,1)] that(3) by auto
    moreover have "\<not> ?c y x < 0" using trl [OF that(1,2,1) that(3)] refl [OF that(1)] by auto
    ultimately show ?thesis by linarith
  qed
  have anti': "?c y x < 0" if "x \<in> set xs" "y \<in> set xs" "?c x y > 0" for x y
  proof -
    have "?c y x \<noteq> 0" using sym [OF that(2,1)] that(3) by auto
    moreover have "\<not> ?c y x > 0" using trg [OF that(1,2,1) that(3)] refl [OF that(1)] by auto
    ultimately show ?thesis by linarith
  qed
  have lt_eq: "?c z y < 0" if "x \<in> set xs" "y \<in> set xs" "z \<in> set xs" "?c z x < 0" "?c x y = 0" for x y z
  proof -
    have "?c z y \<noteq> 0"
    proof
      assume "?c z y = 0"
      hence "?c z x = 0" using tr0 [OF that(3,2,1)] sym [OF that(1,2,5)] by simp
      thus False using that(4) by simp
    qed
    moreover have "\<not> ?c z y > 0"
    proof
      assume "?c z y > 0"
      hence "?c y z < 0" using anti' [OF that(3,2)] by simp
      hence "?c y x < 0" using trl [OF that(2,3,1)] that(4) by simp
      thus False using sym [OF that(1,2,5)] by simp
    qed
    ultimately show ?thesis by linarith
  qed
  have p_eq: "?p x = ?p y" if "x \<in> set xs" "y \<in> set xs" "?c x y = 0" for x y
  proof -
    have "filter (\<lambda>z. ?c z x < 0) xs = filter (\<lambda>z. ?c z y < 0) xs"
      using lt_eq [OF that(1,2) _ _ that(3)] lt_eq [OF that(2,1) _ _ sym [OF that]]
      by (intro filter_cong) auto
    thus ?thesis by (simp add: sort_position_def)
  qed
  have p_lt: "?p x < ?p y" if "x \<in> set xs" "y \<in> set xs" "?c x y < 0" for x y
    unfolding sort_position_def
  proof (rule length_filter_less [where a = x])
    show "?c z y < 0" if "z \<in> set xs" "?c z x < 0" for z
      using trl [OF that(1) \<open>x \<in> set xs\<close> \<open>y \<in> set xs\<close> that(2) \<open>?c x y < 0\<close>] .
    show "x \<in> set xs" by fact
    show "?c x y < 0" by fact
    show "\<not> ?c x x < 0" using refl [OF \<open>x \<in> set xs\<close>] by simp
  qed
  show "?c a b < 0 \<longleftrightarrow> ?p a < ?p b"
    using p_lt [OF a b] p_lt [OF b a] p_eq [OF a b] anti' [OF a b] sort_compare_cases [of cmp a b]
    by auto
  show "?c a b > 0 \<longleftrightarrow> ?p b < ?p a"
    using p_lt [OF a b] p_lt [OF b a] p_eq [OF a b] anti' [OF a b] sort_compare_cases [of cmp a b]
    by auto
qed

lemma array_sort_position:
  assumes "consistent cmp xs"
  shows "array_sort cmp xs = Some (sort_key (sort_position cmp xs) xs)"
  using consistent_position [OF assms] by (intro array_sort_sort_key) blast+

lemma array_sort_None: "array_sort cmp xs = None \<longleftrightarrow> \<not> consistent cmp xs"
  by (simp add: array_sort_def)

lemma sort_key_stable_pred:
  fixes k :: "'a \<Rightarrow> 'b::linorder"
  assumes "\<And>a b. P a \<Longrightarrow> P b \<Longrightarrow> k a = k b"
  shows "filter P (sort_key k xs) = filter P xs"
proof -
  have "sorted_wrt (\<lambda>a b. k a \<le> k b) (filter P xs)"
  proof (rule sorted_wrt_mono_rel [where P = "\<lambda>_ _. True"])
    fix a b
    assume "a \<in> set (filter P xs)" and "b \<in> set (filter P xs)"
    then have "P a" and "P b" by simp_all
    then have "k a = k b" by (rule assms)
    then show "k a \<le> k b" by simp
  qed simp
  then have "sorted (map k (filter P xs))"
    by (simp only: sorted_map)
  then have "sort_key k (filter P xs) = filter P xs"
    by (rule sort_key_id_if_sorted)
  then show ?thesis by (simp only: filter_sort)
qed

lemma sorted_partition:
  fixes k :: "'a \<Rightarrow> 'b::linorder"
  assumes "sorted (map k ys)"
    and "\<And>a b. a \<in> set ys \<Longrightarrow> b \<in> set ys \<Longrightarrow> P a \<Longrightarrow> \<not> P b \<Longrightarrow> k a < k b"
  shows "ys = filter P ys @ filter (\<lambda>a. \<not> P a) ys"
  using assms
proof (induction ys)
  case Nil
  show ?case by simp
next
  case (Cons y ys)
  have ih: "ys = filter P ys @ filter (\<lambda>a. \<not> P a) ys"
    using Cons by simp
  show ?case
  proof (cases "P y")
    case True
    with ih show ?thesis by simp
  next
    case False
    have "\<not> P a" if "a \<in> set ys" for a
    proof
      assume "P a"
      with Cons.prems(2) [of a y] that False have "k a < k y" by simp
      moreover from Cons.prems(1) that have "k y \<le> k a" by simp
      ultimately show False by simp
    qed
    then have "filter P ys = []" and "filter (\<lambda>a. \<not> P a) ys = ys"
      by (simp_all add: filter_empty_conv filter_id_conv)
    with False show ?thesis by simp
  qed
qed

section \<open>The order of the numbers\<close>

lemma number_round: "number (round_to_double x)"
  by (cases x rule: round_to_double_cases) (simp_all add: number_def)

lemma number_not_NaN: "number a \<Longrightarrow> a \<noteq> NaN"
  by (auto simp: number_def)

lemma number_jneg: "number (jneg a) \<longleftrightarrow> number a"
  by (cases a) (simp_all add: number_def double_minus)

lemma round_to_double_sign:
  assumes "double x" and "double y"
  shows "jlt (round_to_double (x - y)) (Fin 0) \<longleftrightarrow> x < y"
    and "jlt (Fin 0) (round_to_double (x - y)) \<longleftrightarrow> y < x"
proof -
  have neg: "jlt (round_to_double (x - y)) (Fin 0) \<and> \<not> jlt (Fin 0) (round_to_double (x - y))"
    if "x < y"
  proof -
    have "x - y \<le> - (2 powi (- 1074))" using double_diff [OF assms that] by linarith
    from round_to_double_neg [OF this] show ?thesis by auto
  qed
  have pos: "jlt (Fin 0) (round_to_double (x - y)) \<and> \<not> jlt (round_to_double (x - y)) (Fin 0)"
    if "y < x"
  proof -
    have "2 powi (- 1074) \<le> x - y" using double_diff [OF assms(2,1) that] by linarith
    from round_to_double_pos [OF this] show ?thesis by auto
  qed
  have zero: "\<not> jlt (Fin 0) (round_to_double (x - y)) \<and> \<not> jlt (round_to_double (x - y)) (Fin 0)"
    if "x = y"
    using that by (simp add: round_to_double_0)
  show "jlt (round_to_double (x - y)) (Fin 0) \<longleftrightarrow> x < y"
    using neg pos zero by (cases x y rule: linorder_cases) auto
  show "jlt (Fin 0) (round_to_double (x - y)) \<longleftrightarrow> y < x"
    using neg pos zero by (cases x y rule: linorder_cases) auto
qed

lemma jsub_negative:
  "number a \<Longrightarrow> number b \<Longrightarrow> jlt (jsub a b) (Fin 0) \<longleftrightarrow> rank a < rank b"
  by (cases a; cases b)
    (auto simp: jsub_Fin jsub_def number_def less_prod_def round_to_double_sign)

lemma jsub_positive:
  "number a \<Longrightarrow> number b \<Longrightarrow> jgt (jsub a b) (Fin 0) \<longleftrightarrow> rank b < rank a"
  by (cases a; cases b)
    (auto simp: jsub_Fin jsub_def jgt_def number_def less_prod_def round_to_double_sign)

lemma sort_compare_jsub:
  assumes "number (f a)" and "number (f b)"
  shows "sort_compare (\<lambda>a b. jsub (f a) (f b)) a b < 0 \<longleftrightarrow> rank (f a) < rank (f b)"
    and "sort_compare (\<lambda>a b. jsub (f a) (f b)) a b > 0 \<longleftrightarrow> rank (f b) < rank (f a)"
  using jsub_negative [OF assms] jsub_positive [OF assms]
  by (auto simp: sort_compare_def)

lemma rank_jneg:
  "a \<noteq> NaN \<Longrightarrow> b \<noteq> NaN \<Longrightarrow> rank (jneg b) < rank (jneg a) \<longleftrightarrow> rank a < rank b"
  by (cases a; cases b) (auto simp: less_prod_def)

lemma rank_jneg_le:
  "a \<noteq> NaN \<Longrightarrow> b \<noteq> NaN \<Longrightarrow> rank (jneg b) \<le> rank (jneg a) \<longleftrightarrow> rank a \<le> rank b"
  by (cases a; cases b) (auto simp: less_eq_prod_def)

lemma jle_rank:
  "a \<noteq> NaN \<Longrightarrow> b \<noteq> NaN \<Longrightarrow> jle a b \<longleftrightarrow> rank a \<le> rank b"
  by (cases a; cases b) (auto simp: jle_def less_eq_prod_def)

lemma jneg_NaN [simp]: "jneg a = NaN \<longleftrightarrow> a = NaN"
  by (cases a) auto

section \<open>The ranked list\<close>

lemma jmul_positive:
  "jgt a (Fin 0) \<Longrightarrow> jgt b (Fin 10) \<Longrightarrow> number (jmul a b)"
  by (cases a; cases b) (auto simp: jgt_def inf_of_sign_def number_round, simp_all add: number_def)

lemma cards_member:
  "c \<in> set (cards taxRate ps) \<longleftrightarrow> (\<exists>p \<in> set ps. flip_card taxRate p = Some c)"
  unfolding cards_def by (induction ps) (auto split: option.splits)

lemma card_coinsPerHour:
  assumes "flip_card taxRate p = Some c"
  shows "coinsPerHour c = jmul (margin c) (Math_min (instabuy c) (instasell c))"
    and "number (coinsPerHour c)"
proof -
  note c = flip_card_Some [OF assms]
  show "coinsPerHour c = jmul (margin c) (Math_min (instabuy c) (instasell c))"
    by (subst (1 2 3 4) c) simp
  have "flip_card taxRate p \<noteq> None" using assms by simp
  then have "jgt (product_margin taxRate p) (Fin 0)"
    and "jgt (Math_min (instabuyHourly p) (instasellHourly p)) (Fin 10)"
    unfolding flip_card_iff by blast+
  then have "number (jmul (product_margin taxRate p) (Math_min (instabuyHourly p) (instasellHourly p)))"
    by (rule jmul_positive)
  then show "number (coinsPerHour c)"
    by (subst c) simp
qed

lemma array_sort_coinsPerHour:
  assumes "\<And>c. c \<in> set cs \<Longrightarrow> number (coinsPerHour c)"
  shows "array_sort (\<lambda>a b. jsub (coinsPerHour b) (coinsPerHour a)) cs
    = Some (sort_key (\<lambda>c. rank (jneg (coinsPerHour c))) cs)"
proof (rule array_sort_sort_key)
  fix a b
  assume "a \<in> set cs" and "b \<in> set cs"
  hence n: "number (coinsPerHour a)" "number (coinsPerHour b)" by (simp_all add: assms)
  hence nn: "coinsPerHour a \<noteq> NaN" "coinsPerHour b \<noteq> NaN" by (simp_all add: number_not_NaN)
  show "sort_compare (\<lambda>a b. jsub (coinsPerHour b) (coinsPerHour a)) a b < 0
      \<longleftrightarrow> rank (jneg (coinsPerHour a)) < rank (jneg (coinsPerHour b))"
    using jsub_negative [OF n(2,1)] jsub_positive [OF n(2,1)] rank_jneg [OF nn(2,1)]
    by (auto simp: sort_compare_def)
  show "0 < sort_compare (\<lambda>a b. jsub (coinsPerHour b) (coinsPerHour a)) a b
      \<longleftrightarrow> rank (jneg (coinsPerHour b)) < rank (jneg (coinsPerHour a))"
    using jsub_negative [OF n(2,1)] jsub_positive [OF n(2,1)] rank_jneg [OF nn(1,2)]
    by (auto simp: sort_compare_def)
qed

text \<open>The comparison of \<open>getBazaarData\<close> is consistent on the cards that are emitted.\<close>

lemma cards_consistent:
  "consistent (\<lambda>a b. jsub (coinsPerHour b) (coinsPerHour a)) (cards taxRate ps)"
proof -
  have "array_sort (\<lambda>a b. jsub (coinsPerHour b) (coinsPerHour a)) (cards taxRate ps) \<noteq> None"
    by (subst array_sort_coinsPerHour) (auto simp: cards_member card_coinsPerHour(2))
  thus ?thesis by (simp add: array_sort_None)
qed

lemma topCards_sort_key:
  "topCards taxRate ps
    = take 100 (sort_key (\<lambda>c. rank (jneg (coinsPerHour c))) (cards taxRate ps))"
  unfolding topCards_def
  by (subst array_sort_coinsPerHour) (auto simp: cards_member card_coinsPerHour(2))

lemma topCards_member:
  "c \<in> set (topCards taxRate ps) \<Longrightarrow> \<exists>p \<in> set ps. flip_card taxRate p = Some c"
  unfolding topCards_sort_key using cards_member [of c taxRate ps]
  by (auto dest: in_set_takeD)

lemma topCards_sorted:
  "sorted_wrt (\<lambda>a b. jge (coinsPerHour a) (coinsPerHour b)) (topCards taxRate ps)"
proof -
  let ?k = "\<lambda>c. rank (jneg (coinsPerHour c))"
  have "sorted (map ?k (sort_key ?k (cards taxRate ps)))"
    by (rule sorted_sort_key)
  then have "sorted_wrt (\<lambda>a b. ?k a \<le> ?k b) (sort_key ?k (cards taxRate ps))"
    by (simp add: sorted_map)
  then have "sorted_wrt (\<lambda>a b. ?k a \<le> ?k b) (topCards taxRate ps)"
    unfolding topCards_sort_key by (rule sorted_wrt_take)
  moreover have "jge (coinsPerHour a) (coinsPerHour b)"
    if "a \<in> set (topCards taxRate ps)" "b \<in> set (topCards taxRate ps)" "?k a \<le> ?k b" for a b
  proof -
    from that(1,2) have "coinsPerHour a \<noteq> NaN" "coinsPerHour b \<noteq> NaN"
      using topCards_member card_coinsPerHour(2) number_not_NaN by blast+
    with that(3) show ?thesis by (simp add: jge_def jle_rank rank_jneg_le)
  qed
  ultimately show ?thesis by (rule sorted_wrt_mono_rel [rotated])
qed

text \<open>
  C3. For every snapshot and every tax rate, NaN and the infinities among them, the
  ranked list is in descending order of coins per hour and has at most 100 entries, and
  the coins per hour of each entry is its margin times the smaller of its two hourly
  rates. Every list that \<open>getBazaarData\<close> returns, read from a cache that the server
  can reach or freshly derived, is such a list.
\<close>

theorem ranked_list_sorted:
  "sorted_wrt (\<lambda>a b. jge (coinsPerHour a) (coinsPerHour b)) (topCards taxRate ps)
   \<and> length (topCards taxRate ps) \<le> 100
   \<and> (\<forall>c \<in> set (topCards taxRate ps).
         coinsPerHour c = jmul (margin c) (Math_min (instabuy c) (instasell c)))
   \<and> (\<forall>cache upstream cs cache'.
         reachable cache \<and> getBazaarData cache upstream taxRate = (Inr cs, cache') \<longrightarrow>
         sorted_wrt (\<lambda>a b. jge (coinsPerHour a) (coinsPerHour b)) cs \<and> length cs \<le> 100)"
proof -
  have len: "length (topCards t qs) \<le> 100" for t qs
    by (simp add: topCards_def)
  have cph: "coinsPerHour c = jmul (margin c) (Math_min (instabuy c) (instasell c))"
    if "c \<in> set (topCards taxRate ps)" for c
    using topCards_member [OF that] card_coinsPerHour(1) by blast
  have ret: "sorted_wrt (\<lambda>a b. jge (coinsPerHour a) (coinsPerHour b)) cs \<and> length cs \<le> 100"
    if "reachable cache" "getBazaarData cache upstream taxRate = (Inr cs, cache')"
    for cache upstream cs cache'
  proof -
    from that obtain qs where "cs = topCards taxRate qs"
      using getBazaarData_result_derived by blast
    then show ?thesis using topCards_sorted len by simp
  qed
  from topCards_sorted len cph ret show ?thesis by blast
qed

theorem ranked_list_sorted_witness:
  "map card_id (topCards (Fin (5 / 4)) [example_product, no_sell_orders_product, busy_product])
     = [''ENCHANTED_GOLD'', ''ENCHANTED_DIAMOND'']
   \<and> map coinsPerHour (topCards (Fin (5 / 4)) [example_product, no_sell_orders_product, busy_product])
     = [Fin 4750, Fin 105]
   \<and> sorted_wrt (\<lambda>a b. jge (coinsPerHour a) (coinsPerHour b))
       (topCards (Fin (5 / 4)) [example_product, no_sell_orders_product, busy_product])
   \<and> length (topCards (Fin (5 / 4)) [example_product, no_sell_orders_product, busy_product]) \<le> 100"
  using ranked_list_sorted [of "Fin (5 / 4)" "[example_product, no_sell_orders_product, busy_product]"]
  by (simp add: topCards_def cards_def array_sort_def consistent_def sort_compare_def
      flip_card_def example_defs)

section \<open>The margin of the client and the default tax rate\<close>

text \<open>
  For every card that the engine emits, at whatever tax rate, the margin that the client
  recomputes at tax rate 0 is the low price less the high price.
\<close>

lemma client_margin_negated:
  assumes "flip_card taxRate p = Some c"
    and "buyPrice p = Fin highPrice" and "sellPrice p = Fin lowPrice"
  shows "margin (recompute (Fin 0) (item_of_card c)) = Some (round_to_double (lowPrice - highPrice))"
proof -
  note c = flip_card_Some [OF assms(1)]
  have "buy c = Fin lowPrice" and "sell c = Fin highPrice"
    by (subst c, simp add: assms(2,3))+
  moreover have "jmul (Fin lowPrice) (Fin 1) = Fin lowPrice"
    using sellPrice_double [OF assms(3)] by (rule jmul_one)
  ultimately show ?thesis
    by (simp add: recompute_def item_of_card_def json_number_def or_zero_def Let_def
        jsub_Fin round_int del: jmul.simps)
qed

text \<open>
  C4. The engine stores the low price in the field \<open>buy\<close> and the high price in the
  field \<open>sell\<close>; the client reads \<open>buy\<close> as the high price and \<open>sell\<close> as the low
  price. For the example product, with high price 100 and low price 90, the engine's
  margin at tax rate 0 is 10 and the margin recomputed by the client at tax rate 0 is
  \<open>-10\<close>.
\<close>

theorem client_margin_swapped:
  "buyPrice example_product = Fin 100 \<and> sellPrice example_product = Fin 90
   \<and> map_option margin (flip_card (Fin 0) example_product) = Some (Fin 10)
   \<and> map_option (\<lambda>c. margin (recompute (Fin 0) (item_of_card c))) (flip_card (Fin 0) example_product)
       = Some (Some (Fin (- 10)))"
  by (simp add: flip_card_def example_defs recompute_def item_of_card_def json_number_def
      or_zero_def replace_underscores_def)

text \<open>
  C5. A request without the parameter \<open>tax\<close>, or with an empty one, is served with the
  tax rate 1.25, not 1.125: the example product gets the margin 8.75, where the tax rate
  1.125 gives 8.875.
\<close>

theorem default_tax_rate:
  "request_tax None = Fin (5 / 4) \<and> request_tax (Some []) = Fin (5 / 4)
   \<and> request_tax None \<noteq> Fin (9 / 8)
   \<and> map_option margin (flip_card (request_tax None) example_product) = Some (Fin (35 / 4))
   \<and> map_option margin (flip_card (Fin (9 / 8)) example_product) = Some (Fin (71 / 8))"
  by (simp add: request_tax_def flip_card_def example_defs)

section \<open>Failures of the snapshot request, and the keys of the cache\<close>

text \<open>
  C8. When the cache holds no list for the tax rate, so that the snapshot is requested,
  and the request fails or the snapshot's flag \<open>success\<close> is false, \<open>getBazaarData\<close>
  ends in an error (the error of the request, or \<open>Hypixel API failed\<close>), returns no
  list and leaves the cache as it was; the endpoint then answers with status 500 and the
  body \<open>{success: false, error}\<close> that carries the message of the error.
\<close>

theorem upstream_failure:
  assumes "cache (Flips taxRate) = None"
    and "case upstream of Inl e \<Rightarrow> True | Inr response \<Rightarrow> \<not> success response"
    and "err = (case upstream of Inl e \<Rightarrow> e | Inr response \<Rightarrow> Error ''Hypixel API failed'')"
  shows "getBazaarData cache upstream taxRate = (Inl err, cache)
    \<and> (\<forall>q. request_tax q = taxRate \<longrightarrow>
          api_flips cache upstream q = (\<lparr>status = 500, body = Flips_failed (message err)\<rparr>, cache)
          \<and> \<not> body_success (body (fst (api_flips cache upstream q)))
          \<and> 500 \<le> status (fst (api_flips cache upstream q))
          \<and> status (fst (api_flips cache upstream q)) < 600)"
proof -
  have "getBazaarData cache upstream taxRate = (Inl err, cache)"
    using assms getBazaarData_fetch_failed getBazaarData_flag_false
    by (cases upstream) auto
  then show ?thesis by (auto simp: api_flips_def)
qed

theorem upstream_failure_witness:
  "getBazaarData Map.empty failing_upstream (Fin (5 / 4))
     = (Inl (Error ''Hypixel API failed''), Map.empty)
   \<and> api_flips Map.empty failing_upstream None
       = (\<lparr>status = 500, body = Flips_failed ''Hypixel API failed''\<rparr>, Map.empty)
   \<and> api_flips Map.empty (Inl (Error ''timeout of 10000ms exceeded'')) None
       = (\<lparr>status = 500, body = Flips_failed ''timeout of 10000ms exceeded''\<rparr>, Map.empty)"
proof -
  have q: "request_tax None = Fin (5 / 4)" by (simp add: request_tax_def)
  have 1: "getBazaarData Map.empty failing_upstream (Fin (5 / 4))
         = (Inl (Error ''Hypixel API failed''), Map.empty)
     \<and> (\<forall>q. request_tax q = Fin (5 / 4) \<longrightarrow>
          api_flips Map.empty failing_upstream q
            = (\<lparr>status = 500, body = Flips_failed (message (Error ''Hypixel API failed''))\<rparr>, Map.empty)
          \<and> \<not> body_success (body (fst (api_flips Map.empty failing_upstream q)))
          \<and> 500 \<le> status (fst (api_flips Map.empty failing_upstream q))
          \<and> status (fst (api_flips Map.empty failing_upstream q)) < 600)"
    by (rule upstream_failure) (simp_all add: failing_upstream_def)
  have 2: "getBazaarData Map.empty (Inl (Error ''timeout of 10000ms exceeded'')) (Fin (5 / 4))
         = (Inl (Error ''timeout of 10000ms exceeded''), Map.empty)
     \<and> (\<forall>q. request_tax q = Fin (5 / 4) \<longrightarrow>
          api_flips Map.empty (Inl (Error ''timeout of 10000ms exceeded'')) q
            = (\<lparr>status = 500, body = Flips_failed (message (Error ''timeout of 10000ms exceeded''))\<rparr>, Map.empty)
          \<and> \<not> body_success (body (fst (api_flips Map.empty (Inl (Error ''timeout of 10000ms exceeded'')) q)))
          \<and> 500 \<le> status (fst (api_flips Map.empty (Inl (Error ''timeout of 10000ms exceeded'')) q))
          \<and> status (fst (api_flips Map.empty (Inl (Error ''timeout of 10000ms exceeded'')) q)) < 600)"
    by (rule upstream_failure) simp_all
  from 1 2 q show ?thesis by simp
qed

text \<open>
  C9. In every cache that the server can reach, the list stored under the key of a tax
  rate was derived from some snapshot with that tax rate. A call of \<open>getBazaarData\<close> with
  a tax rate reads and writes the entry of that rate only: the entries of all other keys
  stay as they are, and a list that the call returns, from the cache or freshly derived,
  was derived with the tax rate of the call.
\<close>

theorem cache_keyed_by_tax:
  assumes "reachable c"
  shows "(\<forall>t v. c (Flips t) = Some v \<longrightarrow> (\<exists>ps. v = topCards t ps))
    \<and> (\<forall>upstream t r c'. getBazaarData c upstream t = (r, c') \<longrightarrow>
          reachable c'
          \<and> (\<forall>k. k \<noteq> Flips t \<longrightarrow> c' k = c k)
          \<and> (\<forall>v. r = Inr v \<longrightarrow> (\<exists>ps. v = topCards t ps)))"
proof -
  have 1: "\<exists>ps. v = topCards t ps" if "c (Flips t) = Some v" for t v
    using assms that by (rule reachable_derived)
  have 2: "reachable c' \<and> (\<forall>k. k \<noteq> Flips t \<longrightarrow> c' k = c k)
      \<and> (\<forall>v. r = Inr v \<longrightarrow> (\<exists>ps. v = topCards t ps))"
    if g: "getBazaarData c upstream t = (r, c')" for upstream t r c'
  proof -
    have "reachable (snd (getBazaarData c upstream t))"
      using assms by (rule reachable.call)
    then have a: "reachable c'" using g by simp
    have b: "c' k = c k" if "k \<noteq> Flips t" for k
      using getBazaarData_other_keys [OF that, of c upstream] g by simp
    have d: "\<exists>ps. v = topCards t ps" if "r = Inr v" for v
      using getBazaarData_result_derived [OF assms] g that by blast
    from a b d show ?thesis by blast
  qed
  from 1 2 show ?thesis by blast
qed

theorem cache_keyed_by_tax_witness:
  "reachable Map.empty
   \<and> reachable (snd (getBazaarData Map.empty example_upstream (Fin (5 / 4))))
   \<and> snd (getBazaarData Map.empty example_upstream (Fin (5 / 4))) (Flips (Fin (9 / 8))) = None
   \<and> snd (getBazaarData Map.empty example_upstream (Fin (5 / 4))) (Flips (Fin (5 / 4)))
       = Some (topCards (Fin (5 / 4)) [example_product])"
proof -
  have r: "reachable Map.empty" by (rule reachable.start)
  have g: "getBazaarData Map.empty example_upstream (Fin (5 / 4))
      = (Inr (topCards (Fin (5 / 4)) [example_product]),
         [Flips (Fin (5 / 4)) \<mapsto> topCards (Fin (5 / 4)) [example_product]])"
    by (simp add: getBazaarData_def example_upstream_def Let_def)
  have k: "Flips (Fin (9 / 8)) \<noteq> Flips (Fin (5 / 4))" by simp
  from cache_keyed_by_tax [OF r] g
  have "reachable [Flips (Fin (5 / 4)) \<mapsto> topCards (Fin (5 / 4)) [example_product]]"
    by blast
  with r g k show ?thesis by simp
qed

section \<open>parseNum on falsy arguments\<close>

text \<open>
  C10. The number 0, the empty string, \<open>null\<close> and \<open>undefined\<close> are falsy, and for
  every falsy argument \<open>parseNum\<close> returns \<open>null\<close>, not 0; the text \<open>0\<close>, which is not
  falsy, is read as the number 0.
\<close>

theorem parseNum_falsy:
  "falsy (JNum (Fin 0)) \<and> falsy (JStr []) \<and> falsy JNull \<and> falsy JUndefined
   \<and> (\<forall>v. falsy v \<longrightarrow> parseNum v = None \<and> parseNum v \<noteq> Some (Fin 0))
   \<and> \<not> falsy (JStr ''0'') \<and> parseNum (JStr ''0'') = Some (Fin 0)"
proof -
  have "parseNum v = None" if "falsy v" for v
    using that by (cases v) auto
  moreover have "parseNum (JStr ''0'') = Some (Fin 0)"
    by (simp add: text_defs round_int)
  ultimately show ?thesis by simp
qed

theorem parseNum_falsy_witness:
  "falsy (JNum (Fin 0)) \<and> parseNum (JNum (Fin 0)) = None
   \<and> parseNum (JStr []) = None \<and> parseNum JNull = None \<and> parseNum JUndefined = None"
  using parseNum_falsy by simp

end
